theory Spec2Isabelle
  imports Main "HOL-Library.Char_ord" "HOL-Library.List_Lexorder" "HOL-Library.AList"
begin

section \<open>Strings and paths\<close>

text \<open>
  Go strings are byte sequences; they are modelled as \<open>string\<close> (a list of 8-bit
  characters). The functions below are the ones of the packages \<^verbatim>\<open>strings\<close>,
  \<^verbatim>\<open>path\<close> and \<^verbatim>\<open>path/filepath\<close> that \<^verbatim>\<open>main.go\<close> calls, on a Unix host
  (\<^verbatim>\<open>filepath.Separator\<close> is the slash).
\<close>

type_synonym bytes = string

definition Separator :: char where
  "Separator = CHR ''/''"

text \<open>\<^verbatim>\<open>strings.Split(s, sep)\<close> for a separator of one character: never empty.\<close>

fun strings_Split :: "string \<Rightarrow> char \<Rightarrow> string list" where
  "strings_Split [] sep = [[]]"
| "strings_Split (c # cs) sep =
     (if c = sep then [] # strings_Split cs sep
      else (case strings_Split cs sep of
              w # ws \<Rightarrow> (c # w) # ws
            | [] \<Rightarrow> [[c]]))"

text \<open>\<^verbatim>\<open>strings.Join(elems, sep)\<close>.\<close>

fun strings_Join :: "string list \<Rightarrow> string \<Rightarrow> string" where
  "strings_Join [] sep = []"
| "strings_Join [x] sep = x"
| "strings_Join (x # y # ys) sep = x @ sep @ strings_Join (y # ys) sep"

text \<open>\<^verbatim>\<open>strings.TrimPrefix(s, prefix)\<close>.\<close>

definition strings_TrimPrefix :: "string \<Rightarrow> string \<Rightarrow> string" where
  "strings_TrimPrefix s p = (if take (length p) s = p then drop (length p) s else s)"

text \<open>\<^verbatim>\<open>strings.ReplaceAll(s, old, new)\<close> for a non-empty \<open>old\<close>.\<close>

function strings_ReplaceAll :: "string \<Rightarrow> string \<Rightarrow> string \<Rightarrow> string" where
  "strings_ReplaceAll s old new =
     (if s = [] \<or> old = [] then s
      else if take (length old) s = old
           then new @ strings_ReplaceAll (drop (length old) s) old new
           else hd s # strings_ReplaceAll (tl s) old new)"
  by pat_completeness auto
termination
  by (relation "measure (\<lambda>(s, old, new). length s)") auto

declare strings_ReplaceAll.simps [simp del]

text \<open>
  \<^verbatim>\<open>path.Clean\<close> / \<^verbatim>\<open>filepath.Clean\<close>: the path is split at the slashes; empty
  elements and \<open>.\<close> are dropped, \<open>..\<close> removes the element before it (at the root it
  is dropped, at the start of a relative path it is kept). \<open>cleanElems\<close> keeps the
  elements of the result on a stack, last element first.
\<close>

fun cleanElems :: "bool \<Rightarrow> string list \<Rightarrow> string list \<Rightarrow> string list" where
  "cleanElems rooted stack [] = rev stack"
| "cleanElems rooted stack (e # es) =
     (if e = [] \<or> e = ''.'' then cleanElems rooted stack es
      else if e = ''..'' then
        (case stack of
           [] \<Rightarrow> if rooted then cleanElems rooted [] es else cleanElems rooted [e] es
         | t # ts \<Rightarrow> if t = ''..'' then cleanElems rooted (e # stack) es
                     else cleanElems rooted ts es)
      else cleanElems rooted (e # stack) es)"

definition filepath_Clean :: "string \<Rightarrow> string" where
  "filepath_Clean p =
     (if p = [] then ''.''
      else let rooted = (hd p = Separator);
               out = strings_Join (cleanElems rooted [] (strings_Split p Separator)) [Separator]
           in if rooted then Separator # out
              else if out = [] then ''.'' else out)"

text \<open>
  \<^verbatim>\<open>filepath.Join(a, b)\<close> and \<^verbatim>\<open>path.Join(a, b)\<close> (the same function on Unix): empty
  elements are ignored, the rest is joined with slashes and cleaned; the result is
  empty when every element is.
\<close>

definition filepath_Join :: "string \<Rightarrow> string \<Rightarrow> string" where
  "filepath_Join a b =
     (if a \<noteq> [] then filepath_Clean (a @ [Separator] @ b)
      else if b \<noteq> [] then filepath_Clean b
      else [])"

text \<open>
  \<^verbatim>\<open>path.Base(p)\<close>: the last element of the path, after its trailing slashes are
  removed; \<open>.\<close> for the empty path and \<open>/\<close> for a path of slashes only.
\<close>

definition path_Base :: "string \<Rightarrow> string" where
  "path_Base p =
     (if p = [] then ''.''
      else let p1 = rev (dropWhile (\<lambda>c. c = Separator) (rev p));
               p2 = rev (takeWhile (\<lambda>c. c \<noteq> Separator) (rev p1))
           in if p2 = [] then [Separator] else p2)"

section \<open>Errors\<close>

text \<open>
  The error values of the program: its three package-level errors, the errors of the
  libraries it calls (the semantic-version parser, the operating system, the HTTP
  client and the archive readers) and the messages it builds with \<^verbatim>\<open>fmt.Errorf\<close>
  around another error.
\<close>

datatype errno = ENOENT | ENOTDIR | EEXIST | EISDIR | ELOOP | ENOTEMPTY | EINVAL | EBUSY

datatype error =
    errOnlyOsFsSupported
  | errNoCurrentVersion
  | ErrVersionNotInstalled
  | ErrInvalidSemVer
  | ErrParsingSegment
  | PathError errno
  | TransportError string
  | StreamError string
  | FailedDownloading string error
  | FailedCreateInstallDir string error
  | FailedExtract string string error

section \<open>Versions\<close>

text \<open>\<^verbatim>\<open>type Version string\<close> with its two methods.\<close>

datatype Version = Version string

fun Version_String :: "Version \<Rightarrow> string" where
  "Version_String (Version s) = s"

fun Version_Number :: "Version \<Rightarrow> string" where
  "Version_Number (Version s) = strings_TrimPrefix s ''v''"

subsection \<open>The semantic-version parser (github.com/Masterminds/semver v1.5.0)\<close>

text \<open>
  \<^verbatim>\<open>ParseVersion\<close> calls \<^verbatim>\<open>semver.NewVersion\<close> and keeps the \<^verbatim>\<open>String()\<close> of the
  result. The library matches the whole input against
  \<^verbatim>\<open>v?([0-9]+)(\.[0-9]+)?(\.[0-9]+)?(-(ids))?(\+(ids))?\<close> where \<^verbatim>\<open>ids\<close> is
  \<^verbatim>\<open>[0-9A-Za-z\-]+(\.[0-9A-Za-z\-]+)*\<close>, reads the three numbers with
  \<^verbatim>\<open>strconv.ParseInt(_, 10, 64)\<close> (a missing minor or patch is 0), and prints
  \<^verbatim>\<open>major.minor.patch\<close>, then \<^verbatim>\<open>-pre\<close> and \<^verbatim>\<open>+metadata\<close> when they are not empty:
  the leading \<open>v\<close> of the input is not printed.
\<close>

record semver_Version =
  major :: nat
  minor :: nat
  patch :: nat
  pre :: string
  metadata :: string
  original :: string

definition isDigit :: "char \<Rightarrow> bool" where
  "isDigit c = (48 \<le> (of_char c :: nat) \<and> (of_char c :: nat) \<le> 57)"

definition isIdentChar :: "char \<Rightarrow> bool" where
  "isIdentChar c =
     (let n = (of_char c :: nat)
      in (48 \<le> n \<and> n \<le> 57) \<or> (65 \<le> n \<and> n \<le> 90) \<or> (97 \<le> n \<and> n \<le> 122) \<or> n = 45)"

text \<open>The whole of \<open>s\<close> matches \<^verbatim>\<open>[0-9A-Za-z\-]+(\.[0-9A-Za-z\-]+)*\<close>.\<close>

definition isIdents :: "string \<Rightarrow> bool" where
  "isIdents s = list_all (\<lambda>w. w \<noteq> [] \<and> list_all isIdentChar w) (strings_Split s CHR ''.'')"

text \<open>The optional group \<^verbatim>\<open>(\.[0-9]+)?\<close> at the start of \<open>s\<close>: its match and the rest.\<close>

definition optDotDigits :: "string \<Rightarrow> string \<times> string" where
  "optDotDigits s =
     (case s of
        [] \<Rightarrow> ([], s)
      | c # t \<Rightarrow>
          if c = CHR ''.'' \<and> takeWhile isDigit t \<noteq> []
          then (c # takeWhile isDigit t, dropWhile isDigit t)
          else ([], s))"

text \<open>
  \<^verbatim>\<open>versionRegex.FindStringSubmatch(v)\<close>: the groups 1, 2, 3, 5 and 8 of the match
  (major, minor and patch with their dots, pre-release, metadata), or \<open>None\<close>.
\<close>

definition versionRegex_FindStringSubmatch ::
    "string \<Rightarrow> (string \<times> string \<times> string \<times> string \<times> string) option" where
  "versionRegex_FindStringSubmatch v =
     (let s0 = strings_TrimPrefix v ''v'';
          m1 = takeWhile isDigit s0;
          s1 = dropWhile isDigit s0;
          (m2, s2) = optDotDigits s1;
          (m3, s3) = optDotDigits s2;
          hasPre = (s3 \<noteq> [] \<and> hd s3 = CHR ''-'');
          m5 = (if hasPre then takeWhile (\<lambda>c. c \<noteq> CHR ''+'') (tl s3) else []);
          s4 = (if hasPre then dropWhile (\<lambda>c. c \<noteq> CHR ''+'') (tl s3) else s3);
          hasMeta = (s4 \<noteq> [] \<and> hd s4 = CHR ''+'');
          m8 = (if hasMeta then tl s4 else []);
          s5 = (if hasMeta then [] else s4)
      in if m1 \<noteq> [] \<and> (if hasPre then isIdents m5 else True)
            \<and> (if hasMeta then isIdents m8 else True) \<and> s5 = []
         then Some (m1, m2, m3, m5, m8) else None)"

text \<open>
  \<^verbatim>\<open>strconv.ParseInt(s, 10, 64)\<close> on a string of digits: the value, or \<open>None\<close> for
  the range error above \<open>2^63 - 1\<close> (and for a string that is not digits).
\<close>

definition strconv_ParseInt :: "string \<Rightarrow> nat option" where
  "strconv_ParseInt s =
     (if s = [] \<or> \<not> list_all isDigit s then None
      else let n = foldl (\<lambda>a c. 10 * a + (of_char c - 48)) 0 s
           in if n \<le> 9223372036854775807 then Some n else None)"

definition semver_NewVersion :: "string \<Rightarrow> error + semver_Version" where
  "semver_NewVersion v =
     (case versionRegex_FindStringSubmatch v of
        None \<Rightarrow> Inl ErrInvalidSemVer
      | Some (m1, m2, m3, m5, m8) \<Rightarrow>
          (case strconv_ParseInt m1 of
             None \<Rightarrow> Inl ErrParsingSegment
           | Some mj \<Rightarrow>
               (case (if m2 \<noteq> [] then strconv_ParseInt (strings_TrimPrefix m2 ''.'') else Some 0) of
                  None \<Rightarrow> Inl ErrParsingSegment
                | Some mn \<Rightarrow>
                    (case (if m3 \<noteq> [] then strconv_ParseInt (strings_TrimPrefix m3 ''.'') else Some 0) of
                       None \<Rightarrow> Inl ErrParsingSegment
                     | Some pt \<Rightarrow>
                         Inr \<lparr>major = mj, minor = mn, patch = pt, pre = m5, metadata = m8,
                              original = v\<rparr>))))"

text \<open>The verb \<^verbatim>\<open>%d\<close> of package \<^verbatim>\<open>fmt\<close> on a number that is not negative.\<close>

fun fmt_d :: "nat \<Rightarrow> string" where
  "fmt_d n = (if n < 10 then [char_of (48 + n)] else fmt_d (n div 10) @ [char_of (48 + n mod 10)])"

declare fmt_d.simps [simp del]

definition semver_String :: "semver_Version \<Rightarrow> string" where
  "semver_String v =
     fmt_d (major v) @ ''.'' @ fmt_d (minor v) @ ''.'' @ fmt_d (patch v)
       @ (if pre v \<noteq> [] then ''-'' @ pre v else [])
       @ (if metadata v \<noteq> [] then ''+'' @ metadata v else [])"

definition ParseVersion :: "string \<Rightarrow> error + Version" where
  "ParseVersion s =
     (case semver_NewVersion s of
        Inl err \<Rightarrow> Inl err
      | Inr v \<Rightarrow> Inr (Version (semver_String v)))"

section \<open>The host: platform, network and archive readers\<close>

text \<open>\<^verbatim>\<open>system.RuntimeInfo\<close>: the operating system and architecture of the host.\<close>

record RuntimeInfo =
  OS :: string
  Arch :: string

text \<open>
  \<^verbatim>\<open>fmt.Sprintf\<close> for the verbs the program uses on strings, \<^verbatim>\<open>%s\<close> and \<^verbatim>\<open>%v\<close>
  (and \<^verbatim>\<open>%%\<close>); a verb without an operand prints \<^verbatim>\<open>%!s(MISSING)\<close>.
\<close>

fun fmt_Sprintf :: "string \<Rightarrow> string list \<Rightarrow> string" where
  "fmt_Sprintf (c # d # fs) args =
     (if c = CHR ''%'' \<and> (d = CHR ''s'' \<or> d = CHR ''v'') then
        (case args of
           [] \<Rightarrow> ''%!'' @ [d] @ ''(MISSING)'' @ fmt_Sprintf fs []
         | a # as \<Rightarrow> a @ fmt_Sprintf fs as)
      else if c = CHR ''%'' \<and> d = CHR ''%'' then CHR ''%'' # fmt_Sprintf fs args
      else c # fmt_Sprintf (d # fs) args)"
| "fmt_Sprintf fs args = fs"

text \<open>
  Modelled from the spec: \<^verbatim>\<open>RuntimeInfo.Format\<close> belongs to the package
  \<^verbatim>\<open>github.com/alex-held/dfctl-kit/pkg/system\<close>, which is not among the sources. The
  archive name pattern \<^verbatim>\<open>go<bareVersion>.<os>-<arch>.tar.gz\<close> of the specification and
  the format \<^verbatim>\<open>"go%s.[os]-[arch].tar.gz"\<close> of \<^verbatim>\<open>formatGoArchiveArtifactName\<close> fix what
  it does: the placeholders \<^verbatim>\<open>[os]\<close> and \<^verbatim>\<open>[arch]\<close> stand for the host's operating
  system and architecture, and the verbs are filled in as by \<^verbatim>\<open>fmt.Sprintf\<close>.
\<close>

definition RuntimeInfo_Format :: "RuntimeInfo \<Rightarrow> string \<Rightarrow> string list \<Rightarrow> string" where
  "RuntimeInfo_Format ri format args =
     fmt_Sprintf (strings_ReplaceAll (strings_ReplaceAll format ''[os]'' (OS ri)) ''[arch]'' (Arch ri)) args"

text \<open>
  What \<^verbatim>\<open>http.DefaultClient.Do\<close> yields for a GET request: an error (the connection
  failed), or a response with its status code, the bytes of the body that arrive and
  the error that ends the body early, if any. A response with a status such as 404 is
  a response, not an error, for the client.
\<close>

datatype http_result =
    ConnectFailed string
  | Response nat bytes "string option"

text \<open>
  A tar stream as \<^verbatim>\<open>tar.Reader\<close> hands it out: each call of \<^verbatim>\<open>Next\<close> gives the
  header of the next entry, whose content is then read from the reader (\<open>bodyErr\<close> is
  the error that ends the content early, if any); after the last entry \<^verbatim>\<open>Next\<close> gives
  \<^verbatim>\<open>io.EOF\<close> (\<open>ending = None\<close>) or an error.
\<close>

datatype typeflag = TypeReg | TypeDir | TypeSymlink | TypeLink | TypeOther

record tar_Header =
  Name :: string
  Typeflag :: typeflag
  Mode :: nat

record tar_entry =
  hdr :: tar_Header
  body :: bytes
  bodyErr :: "error option"

record tar_stream =
  entries :: "tar_entry list"
  ending :: "error option"

text \<open>
  \<^verbatim>\<open>header.FileInfo().IsDir()\<close>: the entry has the directory type flag, or the file
  type bits of its mode (the bits above the lowest twelve) are those of a directory.
\<close>

definition FileInfo_IsDir :: "tar_Header \<Rightarrow> bool" where
  "FileInfo_IsDir h = (Typeflag h = TypeDir \<or> Mode h div 4096 = 4)"

text \<open>
  The host of a run: the platform \<^verbatim>\<open>system.OSRuntimeInfoGetter{}.Get()\<close> reports,
  whether \<^verbatim>\<open>http.NewRequestWithContext\<close> accepts a URL (\<open>None\<close>) or refuses it, what a
  GET of a URL yields, and what the gzip and tar readers make of a buffer whose first
  bytes are a gzip header (decompression is a parameter of the model, not computed).
\<close>

record host =
  runtimeInfo :: RuntimeInfo
  newRequest :: "string \<Rightarrow> error option"
  httpDo :: "string \<Rightarrow> http_result"
  inflate :: "bytes \<Rightarrow> error + tar_stream"

text \<open>
  \<^verbatim>\<open>gzip.NewReader\<close> reads the ten bytes of the gzip header first and fails when they
  are missing or when the first three are not \<^verbatim>\<open>1f 8b 08\<close>; what it does with a buffer
  that passes is left to \<open>inflate\<close>.
\<close>

definition gzip_NewReader :: "(bytes \<Rightarrow> error + tar_stream) \<Rightarrow> bytes \<Rightarrow> error + tar_stream" where
  "gzip_NewReader rd buf =
     (if length buf < 10 then Inl (StreamError ''unexpected EOF'')
      else if take 3 buf \<noteq> [char_of (31 :: nat), char_of (139 :: nat), char_of (8 :: nat)]
           then Inl (StreamError ''gzip: invalid header'')
      else rd buf)"

section \<open>The file system\<close>

text \<open>
  The state of the file system behind \<^verbatim>\<open>afero.OsFs\<close>, the only \<^verbatim>\<open>afero.Fs\<close> the
  program builds: a finite table from absolute paths (lists of names below the root)
  to nodes. The root directory always exists. Permission bits are not part of the
  state: every operation is permitted, and the mode arguments of the calls have no
  effect. Relative paths are read from the root directory.
\<close>

datatype node = File bytes | Dir | Symlink string

type_synonym fpath = "string list"

type_synonym filesys = "(fpath \<times> node) list"

definition nodeAt :: "filesys \<Rightarrow> fpath \<Rightarrow> node option" where
  "nodeAt fs k = (if k = [] then Some Dir else map_of fs k)"

text \<open>The names of a path string, as the kernel walks them: empty names are skipped.\<close>

definition elements :: "string \<Rightarrow> string list" where
  "elements p = filter (\<lambda>e. e \<noteq> []) (strings_Split p Separator)"

text \<open>
  Path resolution. \<open>cur\<close> is the directory reached so far; each further name needs
  \<open>cur\<close> to be a directory. A symbolic link is followed (at most \<open>fuel\<close> times:
  \<^verbatim>\<open>ELOOP\<close>) unless it is the last name and \<open>follow\<close> is off. The result is the place of
  the last name, whether or not something exists there.
\<close>

fun walk :: "nat \<Rightarrow> filesys \<Rightarrow> fpath \<Rightarrow> string list \<Rightarrow> bool \<Rightarrow> errno + fpath" where
  "walk fuel fs cur [] follow = Inr cur"
| "walk fuel fs cur (c # cs) follow =
     (case nodeAt fs cur of
        None \<Rightarrow> Inl ENOENT
      | Some (File _) \<Rightarrow> Inl ENOTDIR
      | Some (Symlink _) \<Rightarrow> Inl ENOTDIR
      | Some Dir \<Rightarrow>
          if c = ''.'' then walk fuel fs cur cs follow
          else if c = ''..'' then walk fuel fs (butlast cur) cs follow
          else (case nodeAt fs (cur @ [c]) of
                  Some (Symlink t) \<Rightarrow>
                    if cs = [] \<and> \<not> follow then Inr (cur @ [c])
                    else if t = [] then Inl ENOENT
                    else (case fuel of
                            0 \<Rightarrow> Inl ELOOP
                          | Suc n \<Rightarrow>
                              walk n fs (if hd t = Separator then [] else cur)
                                (elements t @ cs) follow)
                | _ \<Rightarrow> walk fuel fs (cur @ [c]) cs follow))"

definition maxSymlinks :: nat where
  "maxSymlinks = 40"

text \<open>The empty path names nothing: \<^verbatim>\<open>ENOENT\<close>.\<close>

definition resolve :: "filesys \<Rightarrow> string \<Rightarrow> bool \<Rightarrow> errno + fpath" where
  "resolve fs p follow =
     (if p = [] then Inl ENOENT else walk maxSymlinks fs [] (elements p) follow)"

text \<open>\<^verbatim>\<open>os.Stat\<close> follows a symbolic link at the end of the path, \<^verbatim>\<open>os.Lstat\<close> does not.\<close>

definition Stat :: "filesys \<Rightarrow> string \<Rightarrow> errno + node" where
  "Stat fs p =
     (case resolve fs p True of
        Inl e \<Rightarrow> Inl e
      | Inr k \<Rightarrow> (case nodeAt fs k of None \<Rightarrow> Inl ENOENT | Some n \<Rightarrow> Inr n))"

definition Lstat :: "filesys \<Rightarrow> string \<Rightarrow> errno + node" where
  "Lstat fs p =
     (case resolve fs p False of
        Inl e \<Rightarrow> Inl e
      | Inr k \<Rightarrow> (case nodeAt fs k of None \<Rightarrow> Inl ENOENT | Some n \<Rightarrow> Inr n))"

text \<open>\<^verbatim>\<open>os.Mkdir\<close>: the parent must be a directory and the name must be free.\<close>

definition Mkdir :: "filesys \<Rightarrow> string \<Rightarrow> nat \<Rightarrow> errno + filesys" where
  "Mkdir fs p perm =
     (case resolve fs p False of
        Inl e \<Rightarrow> Inl e
      | Inr k \<Rightarrow>
          (case nodeAt fs k of
             Some _ \<Rightarrow> Inl EEXIST
           | None \<Rightarrow> Inr (AList.update k Dir fs)))"

text \<open>
  \<^verbatim>\<open>os.MkdirAll\<close>, as the Go library writes it: nothing to do when the path is a
  directory already, \<^verbatim>\<open>ENOTDIR\<close> when it is something else; otherwise the parent (the
  path up to its last name, when that is not empty) is made first, then the directory
  itself; a failure of that last step is forgiven when the directory exists by then.
  \<open>parentEnd path\<close> is the index \<^verbatim>\<open>j\<close> of the library: the length of the path without
  its trailing slashes and its last name.
\<close>

definition parentEnd :: "string \<Rightarrow> nat" where
  "parentEnd path =
     length (dropWhile (\<lambda>c. c \<noteq> Separator) (dropWhile (\<lambda>c. c = Separator) (rev path)))"

function MkdirAll :: "filesys \<Rightarrow> string \<Rightarrow> nat \<Rightarrow> errno + filesys" where
  "MkdirAll fs path perm =
     (case Stat fs path of
        Inr n \<Rightarrow> if n = Dir then Inr fs else Inl ENOTDIR
      | Inl _ \<Rightarrow>
          (case (if 1 < parentEnd path then MkdirAll fs (take (parentEnd path - 1) path) perm
                 else Inr fs) of
             Inl e \<Rightarrow> Inl e
           | Inr fs1 \<Rightarrow>
               (case Mkdir fs1 path perm of
                  Inr fs2 \<Rightarrow> Inr fs2
                | Inl e \<Rightarrow>
                    (case Lstat fs1 path of
                       Inr n \<Rightarrow> if n = Dir then Inr fs1 else Inl e
                     | Inl _ \<Rightarrow> Inl e))))"
  by pat_completeness auto
termination
proof (relation "measure (\<lambda>(fs, path, perm). length path)")
  show "wf (measure (\<lambda>(fs, path, perm). length path))"
    by simp
next
  fix fs :: filesys and path :: string and perm :: nat and e :: errno
  assume "1 < parentEnd path"
  moreover have "parentEnd path \<le> length path"
    unfolding parentEnd_def
    by (rule order_trans [OF length_dropWhile_le]) (rule order_trans [OF length_dropWhile_le], simp)
  ultimately show "((fs, take (parentEnd path - 1) path, perm), (fs, path, perm))
      \<in> measure (\<lambda>(fs, path, perm). length path)"
    by simp
qed

declare MkdirAll.simps [simp del]

text \<open>
  \<^verbatim>\<open>fs.OpenFile(p, os.O_CREATE|os.O_TRUNC|os.O_WRONLY, mode)\<close>: the file is created
  empty, or emptied when it exists; a directory cannot be opened for writing. The
  result is the place of the open file, to which \<open>Write\<close> appends.
\<close>

definition OpenFile :: "filesys \<Rightarrow> string \<Rightarrow> nat \<Rightarrow> errno + (fpath \<times> filesys)" where
  "OpenFile fs p perm =
     (case resolve fs p True of
        Inl e \<Rightarrow> Inl e
      | Inr k \<Rightarrow>
          (case nodeAt fs k of
             Some Dir \<Rightarrow> Inl EISDIR
           | Some (Symlink _) \<Rightarrow> Inl ELOOP
           | _ \<Rightarrow> Inr (k, AList.update k (File []) fs)))"

definition Write :: "filesys \<Rightarrow> fpath \<Rightarrow> bytes \<Rightarrow> filesys" where
  "Write fs k data =
     (case nodeAt fs k of
        Some (File old) \<Rightarrow> AList.update k (File (old @ data)) fs
      | _ \<Rightarrow> fs)"

text \<open>The entries of the directory at \<open>k\<close>: name and node, in the order of the table.\<close>

definition dirEntries :: "filesys \<Rightarrow> fpath \<Rightarrow> (string \<times> node) list" where
  "dirEntries fs k =
     map (\<lambda>(q, n). (last q, n)) (filter (\<lambda>(q, n). q \<noteq> [] \<and> butlast q = k) (AList.clearjunk fs))"

text \<open>
  \<^verbatim>\<open>os.Remove\<close>: unlinks a file or a symbolic link (the link itself), removes a
  directory only when it is empty.
\<close>

definition Remove :: "filesys \<Rightarrow> string \<Rightarrow> errno + filesys" where
  "Remove fs p =
     (case resolve fs p False of
        Inl e \<Rightarrow> Inl e
      | Inr k \<Rightarrow>
          if k = [] then Inl EBUSY
          else (case nodeAt fs k of
                  None \<Rightarrow> Inl ENOENT
                | Some Dir \<Rightarrow>
                    if dirEntries fs k \<noteq> [] then Inl ENOTEMPTY else Inr (AList.delete k fs)
                | Some _ \<Rightarrow> Inr (AList.delete k fs)))"

text \<open>\<^verbatim>\<open>OsFs.SymlinkIfPossible\<close> is \<^verbatim>\<open>os.Symlink\<close>: the new name must be free.\<close>

definition SymlinkIfPossible :: "filesys \<Rightarrow> string \<Rightarrow> string \<Rightarrow> errno + filesys" where
  "SymlinkIfPossible fs oldname newname =
     (case resolve fs newname False of
        Inl e \<Rightarrow> Inl e
      | Inr k \<Rightarrow>
          (case nodeAt fs k of
             Some _ \<Rightarrow> Inl EEXIST
           | None \<Rightarrow> Inr (AList.update k (Symlink oldname) fs)))"

text \<open>\<^verbatim>\<open>OsFs.ReadlinkIfPossible\<close> is \<^verbatim>\<open>os.Readlink\<close>.\<close>

definition ReadlinkIfPossible :: "filesys \<Rightarrow> string \<Rightarrow> errno + string" where
  "ReadlinkIfPossible fs p =
     (case resolve fs p False of
        Inl e \<Rightarrow> Inl e
      | Inr k \<Rightarrow>
          (case nodeAt fs k of
             Some (Symlink t) \<Rightarrow> Inr t
           | Some _ \<Rightarrow> Inl EINVAL
           | None \<Rightarrow> Inl ENOENT))"

text \<open>
  \<^verbatim>\<open>afero.DirExists\<close>: true for a directory; false without an error when the path does
  not exist or is not a directory; false with the error for any other failure of
  \<^verbatim>\<open>Stat\<close>.
\<close>

definition DirExists :: "filesys \<Rightarrow> string \<Rightarrow> bool \<times> errno option" where
  "DirExists fs p =
     (case Stat fs p of
        Inr n \<Rightarrow> if n = Dir then (True, None) else (False, None)
      | Inl e \<Rightarrow> if e = ENOENT then (False, None) else (False, Some e))"

text \<open>
  \<^verbatim>\<open>afero.ReadDir\<close>: opens the directory, reads all its entries (a symbolic link is
  listed as a link, not as what it points to) and sorts them by name.
\<close>

definition ReadDir :: "filesys \<Rightarrow> string \<Rightarrow> errno + (string \<times> node) list" where
  "ReadDir fs dirname =
     (case resolve fs dirname True of
        Inl e \<Rightarrow> Inl e
      | Inr k \<Rightarrow>
          (case nodeAt fs k of
             None \<Rightarrow> Inl ENOENT
           | Some Dir \<Rightarrow> Inr (sort_key fst (dirEntries fs k))
           | Some _ \<Rightarrow> Inl ENOTDIR))"

section \<open>The program\<close>

text \<open>
  The \<^verbatim>\<open>executor\<close>: the download site and the install root; \<open>FsIsOsFs\<close> says whether
  its \<^verbatim>\<open>Fs\<close> is an \<^verbatim>\<open>*afero.OsFs\<close> (what the type assertions of \<^verbatim>\<open>Use\<close> and
  \<^verbatim>\<open>current\<close> test). The file system itself is passed to each operation and returned
  by those that change it.
\<close>

record executor =
  URL :: string
  InstallPath :: string
  FsIsOsFs :: bool

text \<open>The result of a call that may panic instead of returning.\<close>

datatype 'a completion = Returns 'a | Panics

subsection \<open>Downloading\<close>

definition formatGoArchiveArtifactName :: "RuntimeInfo \<Rightarrow> string \<Rightarrow> string" where
  "formatGoArchiveArtifactName ri version = RuntimeInfo_Format ri ''go%s.[os]-[arch].tar.gz'' [version]"

text \<open>
  \<^verbatim>\<open>download\<close>: the error it returns and the content of the writer afterwards
  (\<open>out\<close> is the content before). The status code of the response is not looked at.
\<close>

definition download :: "host \<Rightarrow> string \<Rightarrow> bytes \<Rightarrow> error option \<times> bytes" where
  "download h url out =
     (case newRequest h url of
        Some err \<Rightarrow> (Some err, out)
      | None \<Rightarrow>
          (case httpDo h url of
             ConnectFailed msg \<Rightarrow> (Some (TransportError msg), out)
           | Response status content readErr \<Rightarrow>
               (map_option StreamError readErr, out @ content)))"

definition dlArchive :: "host \<Rightarrow> executor \<Rightarrow> Version \<Rightarrow> bytes \<times> error option" where
  "dlArchive h e version =
     (let ri = runtimeInfo h;
          artifactName = formatGoArchiveArtifactName ri (Version_String version);
          dlUri = RuntimeInfo_Format ri ''%s/dl/%s'' [URL e, artifactName]
      in case download h dlUri [] of
           (Some err, buf) \<Rightarrow> (buf, Some (FailedDownloading (Version_String version) err))
         | (None, buf) \<Rightarrow> (buf, None))"

subsection \<open>Extracting\<close>

definition unarchiveRenamer :: "string \<Rightarrow> string" where
  "unarchiveRenamer p = strings_Join (tl (strings_Split p Separator)) [Separator]"

text \<open>
  The loop of \<^verbatim>\<open>unTarGzip\<close> over the entries of the stream: the error it returns and
  the file system it leaves.
\<close>

fun untarLoop ::
    "(string \<Rightarrow> string) option \<Rightarrow> string \<Rightarrow> filesys \<Rightarrow> tar_entry list \<Rightarrow> error option
       \<Rightarrow> error option \<times> filesys" where
  "untarLoop renamer target fs [] final = (final, fs)"
| "untarLoop renamer target fs (e # es) final =
     (let header = hdr e;
          filename = (case renamer of None \<Rightarrow> Name header | Some r \<Rightarrow> r (Name header));
          p = filepath_Join target filename
      in if FileInfo_IsDir header then
           (case MkdirAll fs p (Mode header) of
              Inl err \<Rightarrow> (Some (PathError err), fs)
            | Inr fs1 \<Rightarrow> untarLoop renamer target fs1 es final)
         else
           (case OpenFile fs p (Mode header) of
              Inl err \<Rightarrow> (Some (PathError err), fs)
            | Inr (file, fs1) \<Rightarrow>
                (let fs2 = Write fs1 file (body e)
                 in case bodyErr e of
                      Some err \<Rightarrow> (Some err, fs2)
                    | None \<Rightarrow> untarLoop renamer target fs2 es final)))"

text \<open>
  \<^verbatim>\<open>unTarGzip\<close>. The error of \<^verbatim>\<open>gzip.NewReader\<close> is discarded
  (\<^verbatim>\<open>gr, _ := gzip.NewReader(buf)\<close>); when there is one, \<^verbatim>\<open>gr\<close> is a nil
  \<^verbatim>\<open>*gzip.Reader\<close>, and the first \<^verbatim>\<open>tr.Next()\<close> reads from it: a nil pointer
  dereference, that is a panic.
\<close>

definition unTarGzip ::
    "(bytes \<Rightarrow> error + tar_stream) \<Rightarrow> bytes \<Rightarrow> string \<Rightarrow> (string \<Rightarrow> string) option \<Rightarrow> filesys
       \<Rightarrow> error option completion \<times> filesys" where
  "unTarGzip rd buf target renamer fs =
     (case gzip_NewReader rd buf of
        Inl _ \<Rightarrow> (Panics, fs)
      | Inr tr \<Rightarrow>
          (case untarLoop renamer target fs (entries tr) (ending tr) of
             (err, fs1) \<Rightarrow> (Returns err, fs1)))"

definition Install :: "host \<Rightarrow> executor \<Rightarrow> filesys \<Rightarrow> Version \<Rightarrow> error option completion \<times> filesys" where
  "Install h e fs version =
     (let installPath = filepath_Join (InstallPath e) (Version_String version)
      in case dlArchive h e version of
           (archive, Some err) \<Rightarrow> (Returns (Some err), fs)
         | (archive, None) \<Rightarrow>
             (case MkdirAll fs installPath 511 of
                Inl err \<Rightarrow> (Returns (Some (FailedCreateInstallDir installPath (PathError err))), fs)
              | Inr fs1 \<Rightarrow>
                  (case unTarGzip (inflate h) archive installPath (Some unarchiveRenamer) fs1 of
                     (Panics, fs2) \<Rightarrow> (Panics, fs2)
                   | (Returns (Some err), fs2) \<Rightarrow>
                       (Returns (Some (FailedExtract (Version_String version) installPath err)), fs2)
                   | (Returns None, fs2) \<Rightarrow> (Returns None, fs2))))"

subsection \<open>The current version and the inventory\<close>

definition Use :: "executor \<Rightarrow> filesys \<Rightarrow> Version \<Rightarrow> error option \<times> filesys" where
  "Use e fs version =
     (let versionPath = filepath_Join (InstallPath e) (Version_String version);
          currentPath = filepath_Join (InstallPath e) ''current''
      in if \<not> FsIsOsFs e then (Some errOnlyOsFsSupported, fs)
         else (case DirExists fs versionPath of
                 (exists, err) \<Rightarrow>
                   if err \<noteq> None \<or> \<not> exists then (Some ErrVersionNotInstalled, fs)
                   else (let fs1 = (case Remove fs currentPath of Inl _ \<Rightarrow> fs | Inr fs' \<Rightarrow> fs')
                         in case SymlinkIfPossible fs1 versionPath currentPath of
                              Inl err \<Rightarrow> (Some (PathError err), fs1)
                            | Inr fs2 \<Rightarrow> (None, fs2))))"

definition list :: "executor \<Rightarrow> filesys \<Rightarrow> Version list \<times> error option" where
  "list e fs =
     (case ReadDir fs (InstallPath e) of
        Inl err \<Rightarrow> ([], Some (PathError err))
      | Inr fis \<Rightarrow> (map (\<lambda>fi. Version (fst fi)) (filter (\<lambda>fi. snd fi = Dir) fis), None))"

definition current :: "executor \<Rightarrow> filesys \<Rightarrow> error + Version" where
  "current e fs =
     (let installPath = filepath_Join (InstallPath e) ''current''
      in if \<not> FsIsOsFs e then Inl errOnlyOsFsSupported
         else (case ReadlinkIfPossible fs installPath of
                 Inl _ \<Rightarrow> Inl errNoCurrentVersion
               | Inr link \<Rightarrow> ParseVersion (path_Base link)))"

section \<open>Notions the statements use\<close>

text \<open>
  A plain name: not empty, neither \<open>.\<close> nor \<open>..\<close>, without a slash. \<open>absPath ks\<close> is
  the absolute, clean path string with the names \<open>ks\<close>.
\<close>

definition plainName :: "string \<Rightarrow> bool" where
  "plainName s = (s \<noteq> [] \<and> s \<noteq> ''.'' \<and> s \<noteq> ''..'' \<and> Separator \<notin> set s)"

definition absPath :: "fpath \<Rightarrow> string" where
  "absPath ks = Separator # strings_Join ks [Separator]"

text \<open>Every directory on the way from \<open>cur\<close> down the names \<open>cs\<close> is a real directory.\<close>

fun dirsFrom :: "filesys \<Rightarrow> fpath \<Rightarrow> string list \<Rightarrow> bool" where
  "dirsFrom fs cur [] = (nodeAt fs cur = Some Dir)"
| "dirsFrom fs cur (c # cs) = (nodeAt fs cur = Some Dir \<and> dirsFrom fs (cur @ [c]) cs)"

definition dirChain :: "filesys \<Rightarrow> fpath \<Rightarrow> bool" where
  "dirChain fs k = dirsFrom fs [] k"

text \<open>Nothing exists below the directory \<open>ts\<close>.\<close>

definition emptyBelow :: "filesys \<Rightarrow> fpath \<Rightarrow> bool" where
  "emptyBelow fs ts = list_all (\<lambda>kn. if take (length ts) (fst kn) = ts then fst kn = ts else True) fs"

text \<open>
  What an archive holds below its wrapper directory, in the words of the
  specification: the path of an entry is its name without the first segment, a
  directory entry stands for a directory and any other entry for a file with the
  entry's content.
\<close>

definition entryPath :: "tar_entry \<Rightarrow> fpath" where
  "entryPath e = filter (\<lambda>x. x \<noteq> []) (tl (strings_Split (Name (hdr e)) Separator))"

definition entryNode :: "tar_entry \<Rightarrow> node" where
  "entryNode e = (if FileInfo_IsDir (hdr e) then Dir else File (body e))"

definition archiveTree :: "tar_entry list \<Rightarrow> fpath \<Rightarrow> node option" where
  "archiveTree es = map_of (map (\<lambda>e. (entryPath e, entryNode e)) es)"

text \<open>
  An archive that lists parents first: the names below the wrapper have no \<open>.\<close> or
  \<open>..\<close>; an entry for the wrapper itself is a directory; every other entry has a path
  no earlier entry has, lies in the wrapper or in a directory an earlier entry made
  (\<open>dirs\<close>), and its content is read without an error.
\<close>

fun parentsFirst :: "fpath list \<Rightarrow> fpath list \<Rightarrow> tar_entry list \<Rightarrow> bool" where
  "parentsFirst dirs seen [] = True"
| "parentsFirst dirs seen (e # es) =
     (let r = entryPath e
      in list_all (\<lambda>x. x \<noteq> ''.'' \<and> x \<noteq> ''..'') (tl (strings_Split (Name (hdr e)) Separator))
         \<and> (if r = [] then FileInfo_IsDir (hdr e) \<and> parentsFirst dirs seen es
            else butlast r \<in> set dirs \<and> r \<notin> set seen \<and> bodyErr e = None
                 \<and> parentsFirst (if FileInfo_IsDir (hdr e) then r # dirs else dirs) (r # seen) es))"

section \<open>Example hosts and file systems\<close>

text \<open>The inputs at which the theorems below are evaluated.\<close>

definition linux_amd64 :: RuntimeInfo where
  "linux_amd64 = \<lparr>OS = ''linux'', Arch = ''amd64''\<rparr>"

text \<open>
  A download site that publishes one release, \<^verbatim>\<open>go1.17.1.linux-amd64.tar.gz\<close>, and
  answers every other URL with status 404 and a short error page.
\<close>

definition release_1_17_1 :: bytes where
  "release_1_17_1 = [char_of (31 :: nat), char_of (139 :: nat), char_of (8 :: nat)] @ ''0000000go1.17.1''"

definition golang_org :: "string \<Rightarrow> http_result" where
  "golang_org url =
     (if url = ''https://golang.org/dl/go1.17.1.linux-amd64.tar.gz''
      then Response 200 release_1_17_1 None
      else Response 404 ''404 page not found'' None)"

text \<open>The entries of the published release: the wrapper directory \<open>go\<close> and what is in it.\<close>

definition entry :: "string \<Rightarrow> typeflag \<Rightarrow> bytes \<Rightarrow> tar_entry" where
  "entry name flag content =
     \<lparr>hdr = \<lparr>Name = name, Typeflag = flag, Mode = 493\<rparr>, body = content, bodyErr = None\<rparr>"

definition release_entries :: "tar_entry list" where
  "release_entries =
     [entry ''go/'' TypeDir [], entry ''go/VERSION'' TypeReg ''go1.17.1'',
      entry ''go/bin/'' TypeDir [], entry ''go/bin/go'' TypeReg ''ELF'']"

definition release_reader :: "bytes \<Rightarrow> error + tar_stream" where
  "release_reader buf =
     (if buf = release_1_17_1 then Inr \<lparr>entries = release_entries, ending = None\<rparr>
      else Inl (StreamError ''gzip: invalid header''))"

definition online :: host where
  "online = \<lparr>runtimeInfo = linux_amd64, newRequest = (\<lambda>url. None), httpDo = golang_org,
              inflate = release_reader\<rparr>"

definition offline :: host where
  "offline = \<lparr>runtimeInfo = linux_amd64, newRequest = (\<lambda>url. None),
               httpDo = (\<lambda>url. ConnectFailed ''dial tcp: no route to host''),
               inflate = release_reader\<rparr>"

definition sdk_executor :: executor where
  "sdk_executor = \<lparr>URL = ''https://golang.org'', InstallPath = ''/sdk/go'', FsIsOsFs = True\<rparr>"

text \<open>An install root with two installed versions and no current link.\<close>

definition sdk_fs :: filesys where
  "sdk_fs = [([''sdk''], Dir), ([''sdk'', ''go''], Dir), ([''sdk'', ''go'', ''1.17.1''], Dir),
             ([''sdk'', ''go'', ''1.16.0''], Dir),
             ([''sdk'', ''go'', ''1.16.0'', ''VERSION''], File ''go1.16'')]"

text \<open>The same root when \<open>current\<close> is a link to version 1.16.0, and when it is a directory.\<close>

definition sdk_fs_linked :: filesys where
  "sdk_fs_linked = sdk_fs @ [([''sdk'', ''go'', ''current''], Symlink ''/sdk/go/1.16.0'')]"

definition sdk_fs_current_dir :: filesys where
  "sdk_fs_current_dir = sdk_fs @ [([''sdk'', ''go'', ''current''], Dir)]"

text \<open>
  An install root as the tests of the repository build it: directories named with a
  leading \<open>v\<close>.
\<close>

definition test_fs :: filesys where
  "test_fs = [([''sdk''], Dir), ([''sdk'', ''go''], Dir), ([''sdk'', ''go'', ''v1.16''], Dir),
              ([''sdk'', ''go'', ''v1.17.1''], Dir)]"

definition test_fs_1_17_1 :: filesys where
  "test_fs_1_17_1 = test_fs @ [([''sdk'', ''go'', ''current''], Symlink ''/sdk/go/v1.17.1'')]"

definition test_fs_1_16 :: filesys where
  "test_fs_1_16 = test_fs @ [([''sdk'', ''go'', ''current''], Symlink ''/sdk/go/v1.16'')]"

text \<open>An archive with one entry, a file two levels below the wrapper, and no directory entries.\<close>

definition flat_reader :: "bytes \<Rightarrow> error + tar_stream" where
  "flat_reader buf = Inr \<lparr>entries = [entry ''go/bin/go'' TypeReg ''ELF''], ending = None\<rparr>"

section \<open>Versions: the parser's canonical form\<close>

lemma fmt_d_digits: "list_all isDigit (fmt_d n)"
proof (induction n rule: fmt_d.induct)
  case (1 n)
  show ?case
  proof (cases "n < 10")
    case True
    then show ?thesis by (subst fmt_d.simps) (simp add: isDigit_def)
  next
    case False
    have "n mod 10 < 10" by simp
    then have "isDigit (char_of (48 + n mod 10))" by (simp add: isDigit_def)
    with False 1 show ?thesis by (subst fmt_d.simps) simp
  qed
qed

lemma fmt_d_nonempty: "fmt_d n \<noteq> []"
  by (subst fmt_d.simps) simp

lemma fmt_d_value: "foldl (\<lambda>a c. 10 * a + (of_char c - 48)) 0 (fmt_d n) = n"
proof (induction n rule: fmt_d.induct)
  case (1 n)
  show ?case
  proof (cases "n < 10")
    case True
    then show ?thesis by (subst fmt_d.simps) simp
  next
    case False
    have "n mod 10 < 10" by simp
    then have "(of_char (char_of (48 + n mod 10) :: char) :: nat) = 48 + n mod 10" by simp
    with False 1 show ?thesis by (subst fmt_d.simps) simp
  qed
qed

lemma ParseInt_fmt_d: "n \<le> 9223372036854775807 \<Longrightarrow> strconv_ParseInt (fmt_d n) = Some n"
  by (simp add: strconv_ParseInt_def fmt_d_digits fmt_d_nonempty fmt_d_value)

lemma ParseInt_range: "strconv_ParseInt s = Some n \<Longrightarrow> n \<le> 9223372036854775807"
  by (auto simp: strconv_ParseInt_def Let_def split: if_splits)

lemma takeWhile_run:
  "list_all P ds \<Longrightarrow> r = [] \<or> \<not> P (hd r) \<Longrightarrow> takeWhile P (ds @ r) = ds"
  by (cases r; induction ds; simp)

lemma dropWhile_run:
  "list_all P ds \<Longrightarrow> r = [] \<or> \<not> P (hd r) \<Longrightarrow> dropWhile P (ds @ r) = r"
  by (cases r; induction ds; simp)

lemma optDotDigits_fmt_d:
  assumes "r = [] \<or> \<not> isDigit (hd r)"
  shows "optDotDigits (CHR ''.'' # fmt_d n @ r) = (CHR ''.'' # fmt_d n, r)"
  using assms
  by (simp add: optDotDigits_def takeWhile_run dropWhile_run fmt_d_digits fmt_d_nonempty)

lemma Split_chars: "c \<in> set s \<Longrightarrow> c \<noteq> sep \<Longrightarrow> \<exists>w \<in> set (strings_Split s sep). c \<in> set w"
  by (induction s sep rule: strings_Split.induct) (auto split: list.splits if_splits)

lemma isIdents_no_plus: "isIdents s \<Longrightarrow> CHR ''+'' \<notin> set s"
proof
  assume a: "isIdents s" and b: "CHR ''+'' \<in> set s"
  from Split_chars [OF b, of "CHR ''.''"] obtain w
    where "w \<in> set (strings_Split s CHR ''.'')" and "CHR ''+'' \<in> set w" by auto
  with a have "isIdentChar CHR ''+''" by (auto simp: isIdents_def list_all_iff)
  then show False by (simp add: isIdentChar_def)
qed

lemma TrimPrefix_dot: "strings_TrimPrefix (CHR ''.'' # s) ''.'' = s"
  by (simp add: strings_TrimPrefix_def)

lemma fmt_d_hd: "isDigit (hd (fmt_d n))"
  using fmt_d_digits [of n] fmt_d_nonempty [of n] by (cases "fmt_d n") auto

lemma TrimPrefix_v_fmt_d: "strings_TrimPrefix (fmt_d n @ r) ''v'' = fmt_d n @ r"
proof -
  have "hd (fmt_d n @ r) \<noteq> CHR ''v''"
    using fmt_d_hd [of n] fmt_d_nonempty [of n] by (auto simp: isDigit_def)
  then show ?thesis
    using fmt_d_nonempty [of n] by (cases "fmt_d n") (auto simp: strings_TrimPrefix_def)
qed

text \<open>The printed form of a version matches the pattern again, group by group.\<close>

lemma FindStringSubmatch_String:
  assumes p: "p = [] \<or> (isIdents p \<and> CHR ''+'' \<notin> set p)"
      and m: "m = [] \<or> isIdents m"
  shows "versionRegex_FindStringSubmatch
           (fmt_d a @ ''.'' @ fmt_d b @ ''.'' @ fmt_d c
              @ (if p \<noteq> [] then ''-'' @ p else []) @ (if m \<noteq> [] then ''+'' @ m else []))
         = Some (fmt_d a, CHR ''.'' # fmt_d b, CHR ''.'' # fmt_d c, p, m)"
proof -
  define M where "M = (if m \<noteq> [] then ''+'' @ m else [])"
  define R where "R = (if p \<noteq> [] then ''-'' @ p else []) @ M"
  have M: "M = [] \<or> hd M = CHR ''+''" by (simp add: M_def)
  have R: "R = [] \<or> \<not> isDigit (hd R)"
    using M by (auto simp: R_def isDigit_def)
  have t1: "takeWhile isDigit (fmt_d a @ CHR ''.'' # fmt_d b @ CHR ''.'' # fmt_d c @ R) = fmt_d a"
    by (rule takeWhile_run) (simp_all add: fmt_d_digits isDigit_def)
  have d1: "dropWhile isDigit (fmt_d a @ CHR ''.'' # fmt_d b @ CHR ''.'' # fmt_d c @ R)
              = CHR ''.'' # fmt_d b @ CHR ''.'' # fmt_d c @ R"
    by (rule dropWhile_run) (simp_all add: fmt_d_digits isDigit_def)
  have o2: "optDotDigits (CHR ''.'' # fmt_d b @ CHR ''.'' # fmt_d c @ R)
              = (CHR ''.'' # fmt_d b, CHR ''.'' # fmt_d c @ R)"
    by (rule optDotDigits_fmt_d) (simp add: isDigit_def)
  have o3: "optDotDigits (CHR ''.'' # fmt_d c @ R) = (CHR ''.'' # fmt_d c, R)"
    by (rule optDotDigits_fmt_d) (rule R)
  have hp: "(R \<noteq> [] \<and> hd R = CHR ''-'') = (p \<noteq> [])"
    using M by (auto simp: R_def)
  have lp: "list_all (\<lambda>c. c \<noteq> CHR ''+'') p"
    using p by (auto simp: list_all_iff)
  have Mh: "M = [] \<or> \<not> (hd M \<noteq> CHR ''+'')"
    using M by simp
  have t5: "(if p \<noteq> [] then takeWhile (\<lambda>c. c \<noteq> CHR ''+'') (tl R) else []) = p"
    using takeWhile_run [OF lp Mh] by (simp add: R_def)
  have s4: "(if p \<noteq> [] then dropWhile (\<lambda>c. c \<noteq> CHR ''+'') (tl R) else R) = M"
    using dropWhile_run [OF lp Mh] by (simp add: R_def)
  have hm: "(M \<noteq> [] \<and> hd M = CHR ''+'') = (m \<noteq> [])" by (simp add: M_def)
  have m8: "(if m \<noteq> [] then tl M else []) = m" by (simp add: M_def)
  have s5: "(if m \<noteq> [] then [] else M) = []" by (simp add: M_def)
  have cp: "(if p \<noteq> [] then isIdents p else True)" using p by auto
  have cm: "(if m \<noteq> [] then isIdents m else True)" using m by auto
  have S: "fmt_d a @ ''.'' @ fmt_d b @ ''.'' @ fmt_d c
              @ (if p \<noteq> [] then ''-'' @ p else []) @ (if m \<noteq> [] then ''+'' @ m else [])
           = fmt_d a @ CHR ''.'' # fmt_d b @ CHR ''.'' # fmt_d c @ R"
    by (simp add: R_def M_def)
  show ?thesis
    unfolding S versionRegex_FindStringSubmatch_def TrimPrefix_v_fmt_d Let_def t1 d1 o2 o3
      prod.case hp t5 s4 hm m8 s5
    using cp cm by (simp add: fmt_d_nonempty)
qed

text \<open>What a successful parse says about the fields of the version.\<close>

lemma NewVersion_fields:
  assumes "semver_NewVersion s = Inr v"
  shows "major v \<le> 9223372036854775807" "minor v \<le> 9223372036854775807"
        "patch v \<le> 9223372036854775807"
        "pre v = [] \<or> (isIdents (pre v) \<and> CHR ''+'' \<notin> set (pre v))"
        "metadata v = [] \<or> isIdents (metadata v)"
proof -
  obtain m1 m2 m3 m5 m8 where fs: "versionRegex_FindStringSubmatch s = Some (m1, m2, m3, m5, m8)"
    using assms by (auto simp: semver_NewVersion_def split: option.splits)
  have v: "strconv_ParseInt m1 = Some (major v)"
     "(if m2 \<noteq> [] then strconv_ParseInt (strings_TrimPrefix m2 ''.'') else Some 0) = Some (minor v)"
     "(if m3 \<noteq> [] then strconv_ParseInt (strings_TrimPrefix m3 ''.'') else Some 0) = Some (patch v)"
     "pre v = m5" "metadata v = m8"
    using assms fs by (auto simp: semver_NewVersion_def split: option.splits)
  show "major v \<le> 9223372036854775807"
    using v(1) by (rule ParseInt_range)
  show "minor v \<le> 9223372036854775807"
    using v(2) by (auto split: if_splits dest: ParseInt_range)
  show "patch v \<le> 9223372036854775807"
    using v(3) by (auto split: if_splits dest: ParseInt_range)
  define s3 where
    "s3 = snd (optDotDigits (snd (optDotDigits (dropWhile isDigit (strings_TrimPrefix s ''v'')))))"
  define hasPre where "hasPre = (s3 \<noteq> [] \<and> hd s3 = CHR ''-'')"
  define s4 where "s4 = (if hasPre then dropWhile (\<lambda>c. c \<noteq> CHR ''+'') (tl s3) else s3)"
  define hasMeta where "hasMeta = (s4 \<noteq> [] \<and> hd s4 = CHR ''+'')"
  define M5 where "M5 = (if hasPre then takeWhile (\<lambda>c. c \<noteq> CHR ''+'') (tl s3) else [])"
  define M8 where "M8 = (if hasMeta then tl s4 else [])"
  have "\<exists>a b c d e. versionRegex_FindStringSubmatch s =
          (if a \<and> (if hasPre then isIdents M5 else True) \<and> (if hasMeta then isIdents M8 else True) \<and> b
           then Some (c, d, e, M5, M8) else None)"
    unfolding versionRegex_FindStringSubmatch_def Let_def case_prod_beta M5_def M8_def hasMeta_def
      s4_def hasPre_def s3_def
    by (intro exI) (rule refl)
  with fs have m5: "m5 = M5" and m8: "m8 = M8"
   and ok: "(if hasPre then isIdents M5 else True)" "(if hasMeta then isIdents M8 else True)"
    by (auto split: if_splits)
  show "pre v = [] \<or> (isIdents (pre v) \<and> CHR ''+'' \<notin> set (pre v))"
    using m5 ok(1) v(4) by (cases hasPre) (auto simp: M5_def dest: set_takeWhileD)
  show "metadata v = [] \<or> isIdents (metadata v)"
    using m8 ok(2) v(5) by (cases hasMeta) (auto simp: M8_def)
qed

lemma NewVersion_String:
  assumes "semver_NewVersion s = Inr v"
  shows "semver_NewVersion (semver_String v)
          = Inr \<lparr>major = major v, minor = minor v, patch = patch v, pre = pre v,
                 metadata = metadata v, original = semver_String v\<rparr>"
proof -
  note f = NewVersion_fields [OF assms]
  show ?thesis
    unfolding semver_NewVersion_def
    by (simp add: semver_String_def FindStringSubmatch_String [OF f(4) f(5), simplified]
        ParseInt_fmt_d f fmt_d_nonempty TrimPrefix_dot)
qed

lemma ParseVersion_reparse:
  "ParseVersion s = Inr v \<Longrightarrow> ParseVersion (Version_String v) = Inr v"
  using NewVersion_String [of s]
  by (auto simp: ParseVersion_def semver_String_def split: sum.splits)

lemma FindStringSubmatch_v:
  "take 1 s \<noteq> ''v'' \<Longrightarrow>
     versionRegex_FindStringSubmatch (CHR ''v'' # s) = versionRegex_FindStringSubmatch s"
  by (simp add: versionRegex_FindStringSubmatch_def strings_TrimPrefix_def)

lemma ParseVersion_v:
  assumes "take 1 s \<noteq> ''v''"
  shows "ParseVersion (CHR ''v'' # s) = ParseVersion s"
proof (cases "versionRegex_FindStringSubmatch s")
  case None
  then show ?thesis
    by (simp add: ParseVersion_def semver_NewVersion_def FindStringSubmatch_v [OF assms])
next
  case (Some g)
  obtain m1 m2 m3 m5 m8 where g: "g = (m1, m2, m3, m5, m8)"
    by (cases g) auto
  show ?thesis
    unfolding ParseVersion_def semver_NewVersion_def FindStringSubmatch_v [OF assms] Some g
    by (simp add: semver_String_def split: option.splits)
qed

text \<open>A parsed version starts with a digit: it has no \<open>v\<close> for \<^verbatim>\<open>Number()\<close> to strip.\<close>

lemma ParseVersion_Number:
  assumes "ParseVersion s = Inr v"
  shows "Version_Number v = Version_String v"
proof -
  obtain sv where "v = Version (semver_String sv)"
    using assms by (auto simp: ParseVersion_def split: sum.splits)
  then show ?thesis
    using TrimPrefix_v_fmt_d [of "major sv"] by (simp add: semver_String_def)
qed


text \<open>The equations that evaluate the parser on a given string.\<close>

lemmas ParseVersion_eval =
  ParseVersion_def semver_NewVersion_def versionRegex_FindStringSubmatch_def
  strings_TrimPrefix_def optDotDigits_def isDigit_def isIdentChar_def isIdents_def
  strconv_ParseInt_def semver_String_def fmt_d.simps Let_def char_of_eq_iff

text \<open>
  C10, as the code has it. The specification says that \<^verbatim>\<open>ParseVersion(s).String()\<close> is \<open>s\<close>
  itself, leading \<open>v\<close> included. The parser prints its normalised form instead: at
  \<open>v1.17.1\<close> the result is \<open>1.17.1\<close>, the same as for the input \<open>1.17.1\<close>.
\<close>

theorem ParseVersion_keeps_input_counterexample:
  "ParseVersion ''v1.17.1'' = Inr (Version ''1.17.1'')
   \<and> Version_String (Version ''1.17.1'') \<noteq> ''v1.17.1''
   \<and> ParseVersion ''v1.17.1'' = ParseVersion ''1.17.1''"
  by (simp add: ParseVersion_eval)

text \<open>
  C10, amended: the canonical form of a parsed version is a fixed point of the parser
  (parsing it again gives the same version), and a leading \<open>v\<close> does not change the
  result: the inputs \<open>v\<close>\<open>s\<close> and \<open>s\<close> parse to the same version, hence name the same
  install directory.
\<close>

theorem ParseVersion_canonical:
  "(ParseVersion s = Inr v \<longrightarrow> ParseVersion (Version_String v) = Inr v)
   \<and> (take 1 s \<noteq> ''v'' \<longrightarrow> ParseVersion (CHR ''v'' # s) = ParseVersion s)"
  using ParseVersion_reparse [of s v] ParseVersion_v [of s] by blast

theorem ParseVersion_canonical_witness:
  "ParseVersion ''1.16'' = Inr (Version ''1.16.0'')
   \<and> ParseVersion (Version_String (Version ''1.16.0'')) = Inr (Version ''1.16.0'')
   \<and> take 1 ''1.16'' \<noteq> ''v''
   \<and> ParseVersion ''v1.16'' = ParseVersion ''1.16''"
proof -
  have h: "ParseVersion ''1.16'' = Inr (Version ''1.16.0'')"
    by (simp add: ParseVersion_eval)
  have t: "take 1 ''1.16'' \<noteq> ''v''"
    by simp
  show ?thesis
    using h t ParseVersion_canonical [of "''1.16''" "Version ''1.16.0''"] by simp
qed

section \<open>Downloading\<close>

text \<open>
  C2. The specification: the archive name that \<^verbatim>\<open>Install\<close> requests is built from
  \<^verbatim>\<open>Version.Number()\<close>, the version without its leading \<open>v\<close>. \<^verbatim>\<open>dlArchive\<close> passes
  \<^verbatim>\<open>version.String()\<close>: for the version \<open>v1.17.1\<close> (the one the repository's install
  test uses) the name keeps the \<open>v\<close>, the download site does not publish it, and the
  answer is its error page.
\<close>

theorem dlArchive_name_keeps_v:
  "formatGoArchiveArtifactName linux_amd64 (Version_String (Version ''v1.17.1''))
     = ''gov1.17.1.linux-amd64.tar.gz''
   \<and> formatGoArchiveArtifactName linux_amd64 (Version_Number (Version ''v1.17.1''))
     = ''go1.17.1.linux-amd64.tar.gz''
   \<and> dlArchive online sdk_executor (Version ''v1.17.1'') = (''404 page not found'', None)
   \<and> dlArchive online sdk_executor (Version ''1.17.1'') = (release_1_17_1, None)"
proof -
  have a: "formatGoArchiveArtifactName linux_amd64 (Version_String (Version ''v1.17.1''))
     = ''gov1.17.1.linux-amd64.tar.gz''"
    by code_simp
  have b: "formatGoArchiveArtifactName linux_amd64 (Version_Number (Version ''v1.17.1''))
     = ''go1.17.1.linux-amd64.tar.gz''"
    by code_simp
  have c: "dlArchive online sdk_executor (Version ''v1.17.1'') = (''404 page not found'', None)"
    by code_simp
  have d: "dlArchive online sdk_executor (Version ''1.17.1'') = (release_1_17_1, None)"
    by code_simp
  show ?thesis
    using a b c d by blast
qed

text \<open>
  C3. The specification: a response with a status that is not a success makes the download
  fail. \<^verbatim>\<open>download\<close> never reads the status: for a release that does not exist the
  site answers 404, and \<^verbatim>\<open>download\<close> and \<^verbatim>\<open>dlArchive\<close> return no error, with the
  error page as the archive.
\<close>

theorem download_accepts_status_404:
  "httpDo online ''https://golang.org/dl/go1.99.0.linux-amd64.tar.gz''
     = Response 404 ''404 page not found'' None
   \<and> download online ''https://golang.org/dl/go1.99.0.linux-amd64.tar.gz'' []
     = (None, ''404 page not found'')
   \<and> dlArchive online sdk_executor (Version ''1.99.0'') = (''404 page not found'', None)"
proof -
  have a: "httpDo online ''https://golang.org/dl/go1.99.0.linux-amd64.tar.gz''
     = Response 404 ''404 page not found'' None"
    by code_simp
  have b: "download online ''https://golang.org/dl/go1.99.0.linux-amd64.tar.gz'' []
     = (None, ''404 page not found'')"
    by code_simp
  have c: "dlArchive online sdk_executor (Version ''1.99.0'') = (''404 page not found'', None)"
    by code_simp
  show ?thesis
    using a b c by blast
qed

section \<open>Extraction: a buffer that is not gzip\<close>

text \<open>
  C5. The specification: a buffer that is not a gzip stream makes extraction return an
  error. \<^verbatim>\<open>unTarGzip\<close> drops the error of \<^verbatim>\<open>gzip.NewReader\<close> and reads from the nil
  reader it got: for the error page of the download site (and whatever the archive
  readers, the target, the renamer and the file system are) the call panics.
\<close>

theorem unTarGzip_not_gzip_panics:
  "unTarGzip rd ''404 page not found'' target renamer fs = (Panics, fs)"
  by (simp add: unTarGzip_def gzip_NewReader_def)

section \<open>Install: a failed download\<close>



section \<open>Paths\<close>

lemma Split_nonempty [simp]: "strings_Split s sep \<noteq> []"
  by (induction s sep rule: strings_Split.induct) (auto split: list.splits)

lemma Split_append: "strings_Split (a @ sep # b) sep = strings_Split a sep @ strings_Split b sep"
proof (induction a)
  case Nil
  show ?case by simp
next
  case (Cons c a)
  obtain w ws where w: "strings_Split a sep = w # ws"
    by (cases "strings_Split a sep") auto
  show ?case
    using Cons w by simp
qed

lemma Split_no_sep: "sep \<notin> set s \<Longrightarrow> strings_Split s sep = [s]"
  by (induction s) auto

lemma Split_elems: "x \<in> set (strings_Split s sep) \<Longrightarrow> sep \<notin> set x"
proof (induction s arbitrary: x)
  case Nil
  then show ?case by simp
next
  case (Cons c s)
  obtain w ws where w: "strings_Split s sep = w # ws"
    by (cases "strings_Split s sep") auto
  show ?case
    using Cons w by (auto split: if_splits)
qed

lemma Split_Join:
  "xs \<noteq> [] \<Longrightarrow> list_all (\<lambda>x. sep \<notin> set x) xs \<Longrightarrow> strings_Split (strings_Join xs [sep]) sep = xs"
proof (induction xs "[sep]" rule: strings_Join.induct)
  case 1
  then show ?case by simp
next
  case (2 x)
  then show ?case by (simp add: Split_no_sep)
next
  case (3 x y ys)
  then show ?case by (simp add: Split_append Split_no_sep)
qed

lemma Join_snoc: "xs \<noteq> [] \<Longrightarrow> strings_Join (xs @ [x]) sep = strings_Join xs sep @ sep @ x"
  by (induction xs sep rule: strings_Join.induct) auto

lemma plainName_no_sep: "list_all plainName ks \<Longrightarrow> list_all (\<lambda>x. Separator \<notin> set x) ks"
  by (induction ks) (auto simp: plainName_def)

lemma plainName_filter: "list_all plainName ks \<Longrightarrow> filter (\<lambda>e. e \<noteq> []) ks = ks"
  by (induction ks) (auto simp: plainName_def)

lemma plainName_ok: "list_all plainName ks \<Longrightarrow> list_all (\<lambda>x. x \<noteq> ''.'' \<and> x \<noteq> ''..'') ks"
  by (induction ks) (auto simp: plainName_def)

lemma Split_absPath:
  "list_all plainName ks \<Longrightarrow>
     strings_Split (absPath ks) Separator = [] # (if ks = [] then [[]] else ks)"
  by (simp add: absPath_def Split_Join plainName_no_sep)

lemma elements_absPath: "list_all plainName ks \<Longrightarrow> elements (absPath ks) = ks"
  by (simp add: elements_def Split_absPath plainName_filter)

lemma cleanElems_plain:
  "list_all (\<lambda>x. x \<noteq> ''.'' \<and> x \<noteq> ''..'') es \<Longrightarrow>
     cleanElems rooted stack es = rev stack @ filter (\<lambda>e. e \<noteq> []) es"
  by (induction es arbitrary: stack) auto

lemma Clean_below:
  assumes ts: "list_all plainName ts"
      and y: "list_all (\<lambda>x. x \<noteq> ''.'' \<and> x \<noteq> ''..'') (strings_Split y Separator)"
  shows "filepath_Clean (absPath ts @ Separator # y) = absPath (ts @ elements y)"
proof -
  have s: "strings_Split (absPath ts @ Separator # y) Separator
             = ([] # (if ts = [] then [[]] else ts)) @ strings_Split y Separator"
    using Split_append [of "absPath ts" Separator y] by (simp add: Split_absPath [OF ts])
  have ok: "list_all (\<lambda>x. x \<noteq> ''.'' \<and> x \<noteq> ''..'')
              (([] # (if ts = [] then [[]] else ts)) @ strings_Split y Separator)"
    using plainName_ok [OF ts] y by simp
  have c: "cleanElems rooted [] (strings_Split (absPath ts @ Separator # y) Separator)
             = ts @ elements y" for rooted
    unfolding s cleanElems_plain [OF ok]
    by (simp add: elements_def plainName_filter [OF ts])
  have ne: "absPath ts @ Separator # y \<noteq> []"
    by simp
  have hd: "hd (absPath ts @ Separator # y) = Separator"
    by (simp add: absPath_def)
  show ?thesis
    using ne by (simp add: filepath_Clean_def Let_def c hd) (simp add: absPath_def)
qed

lemma Join_below:
  assumes "list_all plainName ts"
      and "list_all (\<lambda>x. x \<noteq> ''.'' \<and> x \<noteq> ''..'') (strings_Split y Separator)"
  shows "filepath_Join (absPath ts) y = absPath (ts @ elements y)"
  using Clean_below [OF assms] by (simp add: filepath_Join_def absPath_def)

lemma Join_name:
  assumes "list_all plainName ts" and "plainName v"
  shows "filepath_Join (absPath ts) v = absPath (ts @ [v])"
proof -
  have s: "strings_Split v Separator = [v]"
    using assms(2) by (simp add: Split_no_sep plainName_def)
  have "list_all (\<lambda>x. x \<noteq> ''.'' \<and> x \<noteq> ''..'') (strings_Split v Separator)"
    using assms(2) by (simp add: s plainName_def)
  from Join_below [OF assms(1) this] show ?thesis
    using assms(2) by (simp add: elements_def s plainName_def)
qed

lemma elements_renamed:
  "elements (unarchiveRenamer name)
     = filter (\<lambda>x. x \<noteq> []) (tl (strings_Split name Separator))"
proof (cases "tl (strings_Split name Separator) = []")
  case True
  then show ?thesis by (simp add: elements_def unarchiveRenamer_def)
next
  case False
  have "list_all (\<lambda>x. Separator \<notin> set x) (tl (strings_Split name Separator))"
    by (auto simp: list_all_iff dest: list.set_sel(2) [rotated] Split_elems)
  with False show ?thesis
    by (simp add: elements_def unarchiveRenamer_def Split_Join)
qed

lemma Split_renamed_ok:
  assumes "list_all (\<lambda>x. x \<noteq> ''.'' \<and> x \<noteq> ''..'') (tl (strings_Split name Separator))"
  shows "list_all (\<lambda>x. x \<noteq> ''.'' \<and> x \<noteq> ''..'') (strings_Split (unarchiveRenamer name) Separator)"
proof (cases "tl (strings_Split name Separator) = []")
  case True
  then show ?thesis by (simp add: unarchiveRenamer_def)
next
  case False
  have "list_all (\<lambda>x. Separator \<notin> set x) (tl (strings_Split name Separator))"
    by (auto simp: list_all_iff dest: list.set_sel(2) [rotated] Split_elems)
  with False assms show ?thesis
    by (simp add: unarchiveRenamer_def Split_Join)
qed

lemma Join_entry:
  assumes "list_all plainName ts"
      and "list_all (\<lambda>x. x \<noteq> ''.'' \<and> x \<noteq> ''..'') (tl (strings_Split (Name (hdr e)) Separator))"
  shows "filepath_Join (absPath ts) (unarchiveRenamer (Name (hdr e))) = absPath (ts @ entryPath e)"
  using Join_below [OF assms(1) Split_renamed_ok [OF assms(2)]]
  by (simp add: elements_renamed entryPath_def)

lemma absPath_snoc:
  "ks \<noteq> [] \<Longrightarrow> absPath (ks @ [x]) = absPath ks @ Separator # x"
  using Join_snoc [of ks x "[Separator]"] by (simp add: absPath_def)

lemma Base_absPath:
  assumes "plainName x"
  shows "path_Base (absPath (ks @ [x])) = x"
proof -
  have "\<exists>pre. absPath (ks @ [x]) = pre @ Separator # x"
  proof (cases "ks = []")
    case True
    then show ?thesis by (simp add: absPath_def)
  next
    case False
    then show ?thesis by (simp add: absPath_snoc)
  qed
  then obtain pre where p: "absPath (ks @ [x]) = pre @ Separator # x"
    by blast
  have x: "x \<noteq> []" "Separator \<notin> set x"
    using assms by (auto simp: plainName_def)
  then have h: "hd (rev x) \<noteq> Separator"
    by (metis hd_rev last_in_set)
  have d: "dropWhile (\<lambda>c. c = Separator) (rev x @ Separator # rev pre) = rev x @ Separator # rev pre"
    using x(1) h by (cases "rev x") auto
  have la: "list_all (\<lambda>c. c \<noteq> Separator) (rev x)"
    using x(2) by (auto simp: list_all_iff)
  have t: "takeWhile (\<lambda>c. c \<noteq> Separator) (rev x @ Separator # rev pre) = rev x"
    using takeWhile_run [OF la, of "Separator # rev pre"] by simp
  show ?thesis
    using x(1) by (simp add: path_Base_def p d t Let_def)
qed

lemma parentEnd_absPath:
  assumes "plainName x"
  shows "parentEnd (absPath (ks @ [x])) = (if ks = [] then 1 else Suc (length (absPath ks)))"
proof -
  define pre where "pre = (if ks = [] then [] else absPath ks)"
  have p: "absPath (ks @ [x]) = pre @ Separator # x"
  proof (cases "ks = []")
    case True
    then show ?thesis by (simp add: absPath_def pre_def)
  next
    case False
    then show ?thesis by (simp add: absPath_snoc pre_def)
  qed
  have x: "x \<noteq> []" "Separator \<notin> set x"
    using assms by (auto simp: plainName_def)
  then have h: "hd (rev x) \<noteq> Separator"
    by (metis hd_rev last_in_set)
  have d: "dropWhile (\<lambda>c. c = Separator) (rev x @ Separator # rev pre) = rev x @ Separator # rev pre"
    using x(1) h by (cases "rev x") auto
  have la: "list_all (\<lambda>c. c \<noteq> Separator) (rev x)"
    using x(2) by (auto simp: list_all_iff)
  have t: "dropWhile (\<lambda>c. c \<noteq> Separator) (rev x @ Separator # rev pre) = Separator # rev pre"
    using dropWhile_run [OF la, of "Separator # rev pre"] by simp
  show ?thesis
    by (simp add: parentEnd_def p d t) (simp add: pre_def)
qed

lemma parent_absPath:
  assumes "plainName x" and "ks \<noteq> []"
  shows "take (parentEnd (absPath (ks @ [x])) - 1) (absPath (ks @ [x])) = absPath ks"
  using assms by (simp add: parentEnd_absPath) (simp add: absPath_snoc)

section \<open>The file system: lookups after an update, path resolution\<close>

lemma nodeAt_update:
  "nodeAt (AList.update k v fs) q = (if q = [] then Some Dir else if q = k then Some v else nodeAt fs q)"
  by (simp add: nodeAt_def update_conv')

lemma nodeAt_delete:
  "nodeAt (AList.delete k fs) q = (if q = [] then Some Dir else if q = k then None else nodeAt fs q)"
  by (simp add: nodeAt_def delete_conv')

lemma dirsFrom_head: "dirsFrom fs cur cs \<Longrightarrow> nodeAt fs cur = Some Dir"
  by (cases cs) auto

lemma dirsFrom_append:
  "dirsFrom fs cur (cs @ ds) = (dirsFrom fs cur cs \<and> dirsFrom fs (cur @ cs) ds)"
  by (induction cs arbitrary: cur) (auto dest: dirsFrom_head)

lemma dirsFrom_last: "dirsFrom fs cur cs \<Longrightarrow> nodeAt fs (cur @ cs) = Some Dir"
proof (induction cs arbitrary: cur)
  case Nil
  then show ?case by simp
next
  case (Cons c cs)
  then have "nodeAt fs ((cur @ [c]) @ cs) = Some Dir"
    by (intro Cons.IH) simp
  then show ?case by simp
qed

text \<open>A chain of directories stays one when the table changes elsewhere.\<close>

lemma dirsFrom_cong:
  "(\<And>i. i \<le> length cs \<Longrightarrow> nodeAt fs' (cur @ take i cs) = nodeAt fs (cur @ take i cs))
     \<Longrightarrow> dirsFrom fs' cur cs = dirsFrom fs cur cs"
proof (induction cs arbitrary: cur)
  case Nil
  from Nil [of 0] show ?case by simp
next
  case (Cons c cs)
  have a: "nodeAt fs' cur = nodeAt fs cur"
    using Cons.prems [of 0] by simp
  have b: "dirsFrom fs' (cur @ [c]) cs = dirsFrom fs (cur @ [c]) cs"
  proof (rule Cons.IH)
    fix i
    assume "i \<le> length cs"
    then show "nodeAt fs' ((cur @ [c]) @ take i cs) = nodeAt fs ((cur @ [c]) @ take i cs)"
      using Cons.prems [of "Suc i"] by simp
  qed
  show ?case by (simp add: a b)
qed

lemma dirsFrom_update_Dir:
  "dirsFrom fs cur cs \<Longrightarrow> dirsFrom (AList.update k Dir fs) cur cs"
  by (induction cs arbitrary: cur) (auto simp: nodeAt_update)

lemma dirsFrom_update_other:
  "dirsFrom fs cur cs \<Longrightarrow> nodeAt fs k \<noteq> Some Dir \<Longrightarrow> dirsFrom (AList.update k v fs) cur cs"
  by (induction cs arbitrary: cur) (auto simp: nodeAt_update)

lemma dirsFrom_update_longer:
  "dirsFrom fs cur cs \<Longrightarrow> length (cur @ cs) < length k \<Longrightarrow> dirsFrom (AList.update k v fs) cur cs"
  by (induction cs arbitrary: cur) (auto simp: nodeAt_update)

lemma dirsFrom_delete_longer:
  "dirsFrom fs cur cs \<Longrightarrow> length (cur @ cs) < length k \<Longrightarrow> dirsFrom (AList.delete k fs) cur cs"
  by (induction cs arbitrary: cur) (auto simp: nodeAt_delete)

text \<open>Down a chain of real directories, resolution goes where the names say.\<close>

lemma walk_dirs:
  "dirsFrom fs cur cs \<Longrightarrow> list_all plainName cs \<Longrightarrow> walk n fs cur cs follow = Inr (cur @ cs)"
proof (induction cs arbitrary: cur)
  case Nil
  show ?case by simp
next
  case (Cons c cs)
  from Cons.prems have c: "c \<noteq> ''.''" "c \<noteq> ''..''"
    and d: "nodeAt fs cur = Some Dir" "nodeAt fs (cur @ [c]) = Some Dir"
    by (auto simp: plainName_def dest: dirsFrom_head)
  from Cons.prems have "walk n fs (cur @ [c]) cs follow = Inr ((cur @ [c]) @ cs)"
    by (intro Cons.IH) auto
  then show ?case
    using c d by simp
qed

lemma walk_to_last:
  "dirsFrom fs cur cs \<Longrightarrow> list_all plainName cs \<Longrightarrow>
     walk n fs cur (cs @ ds) follow = walk n fs (cur @ cs) ds follow"
proof (induction cs arbitrary: cur)
  case Nil
  show ?case by simp
next
  case (Cons c cs)
  from Cons.prems have c: "c \<noteq> ''.''" "c \<noteq> ''..''"
    and d: "nodeAt fs cur = Some Dir" "nodeAt fs (cur @ [c]) = Some Dir"
    by (auto simp: plainName_def dest: dirsFrom_head)
  from Cons.prems have "walk n fs (cur @ [c]) (cs @ ds) follow = walk n fs ((cur @ [c]) @ cs) ds follow"
    by (intro Cons.IH) auto
  then show ?case
    using c d by simp
qed

lemma walk_last_plain:
  assumes "dirsFrom fs cur cs" "list_all plainName cs" "plainName c"
      and "\<And>t. nodeAt fs (cur @ cs @ [c]) \<noteq> Some (Symlink t)"
  shows "walk n fs cur (cs @ [c]) follow = Inr (cur @ cs @ [c])"
proof -
  have d: "nodeAt fs (cur @ cs) = Some Dir"
    using assms(1) by (rule dirsFrom_last)
  have c: "c \<noteq> ''.''" "c \<noteq> ''..''"
    using assms(3) by (auto simp: plainName_def)
  show ?thesis
    unfolding walk_to_last [OF assms(1,2)]
    using c d assms(4) by (auto split: option.splits node.splits)
qed

lemma walk_last_nofollow:
  assumes "dirsFrom fs cur cs" "list_all plainName cs" "plainName c"
  shows "walk n fs cur (cs @ [c]) False = Inr (cur @ cs @ [c])"
proof -
  have d: "nodeAt fs (cur @ cs) = Some Dir"
    using assms(1) by (rule dirsFrom_last)
  have c: "c \<noteq> ''.''" "c \<noteq> ''..''"
    using assms(3) by (auto simp: plainName_def)
  show ?thesis
    unfolding walk_to_last [OF assms(1,2)]
    using c d by (auto split: option.splits node.splits)
qed

lemma walk_last_link:
  assumes "dirsFrom fs cur cs" "list_all plainName cs" "plainName c"
      and "nodeAt fs (cur @ cs @ [c]) = Some (Symlink t)" "t \<noteq> []"
  shows "walk (Suc n) fs cur (cs @ [c]) True
           = walk n fs (if hd t = Separator then [] else cur @ cs) (elements t) True"
proof -
  have d: "nodeAt fs (cur @ cs) = Some Dir"
    using assms(1) by (rule dirsFrom_last)
  have c: "c \<noteq> ''.''" "c \<noteq> ''..''"
    using assms(3) by (auto simp: plainName_def)
  show ?thesis
    unfolding walk_to_last [OF assms(1,2)]
    using c d assms(4,5) by simp
qed

text \<open>The operations at \<open>absPath (ks @ [x])\<close> when the directories \<open>ks\<close> are real.\<close>

lemma absPath_nonempty: "absPath ks \<noteq> []"
  by (simp add: absPath_def)

lemma resolve_nofollow:
  assumes "dirChain fs ks" "list_all plainName ks" "plainName x"
  shows "resolve fs (absPath (ks @ [x])) False = Inr (ks @ [x])"
  using assms walk_last_nofollow [of fs "[]" ks x maxSymlinks]
  by (simp add: resolve_def elements_absPath dirChain_def absPath_nonempty)

lemma resolve_plain:
  assumes "dirChain fs ks" "list_all plainName ks" "plainName x"
      and "\<And>t. nodeAt fs (ks @ [x]) \<noteq> Some (Symlink t)"
  shows "resolve fs (absPath (ks @ [x])) follow = Inr (ks @ [x])"
  using assms walk_last_plain [of fs "[]" ks x maxSymlinks follow]
  by (simp add: resolve_def elements_absPath dirChain_def absPath_nonempty)

lemma resolve_dirs:
  assumes "dirChain fs ks" "list_all plainName ks"
  shows "resolve fs (absPath ks) follow = Inr ks"
  using assms walk_dirs [of fs "[]" ks maxSymlinks follow]
  by (simp add: resolve_def elements_absPath dirChain_def absPath_nonempty)

lemma Stat_dirs:
  assumes "dirChain fs ks" "list_all plainName ks"
  shows "Stat fs (absPath ks) = Inr Dir"
  using assms dirsFrom_last [of fs "[]" ks]
  by (simp add: Stat_def resolve_dirs dirChain_def)

lemma Stat_plain:
  assumes "dirChain fs ks" "list_all plainName ks" "plainName x"
      and "\<And>t. nodeAt fs (ks @ [x]) \<noteq> Some (Symlink t)"
  shows "Stat fs (absPath (ks @ [x]))
           = (case nodeAt fs (ks @ [x]) of None \<Rightarrow> Inl ENOENT | Some n \<Rightarrow> Inr n)"
  by (simp add: Stat_def resolve_plain [OF assms])

lemma Lstat_any:
  assumes "dirChain fs ks" "list_all plainName ks" "plainName x"
  shows "Lstat fs (absPath (ks @ [x]))
           = (case nodeAt fs (ks @ [x]) of None \<Rightarrow> Inl ENOENT | Some n \<Rightarrow> Inr n)"
  by (simp add: Lstat_def resolve_nofollow [OF assms])

lemma MkdirAll_exists: "Stat fs p = Inr Dir \<Longrightarrow> MkdirAll fs p perm = Inr fs"
  by (subst MkdirAll.simps) simp

lemma Mkdir_new:
  assumes "dirChain fs ks" "list_all plainName ks" "plainName x" "nodeAt fs (ks @ [x]) = None"
  shows "Mkdir fs (absPath (ks @ [x])) perm = Inr (AList.update (ks @ [x]) Dir fs)"
  by (simp add: Mkdir_def resolve_nofollow [OF assms(1-3)] assms(4))

lemma MkdirAll_new:
  assumes "dirChain fs ks" "list_all plainName ks" "plainName x" "nodeAt fs (ks @ [x]) = None"
  shows "MkdirAll fs (absPath (ks @ [x])) perm = Inr (AList.update (ks @ [x]) Dir fs)"
proof -
  have s: "Stat fs (absPath (ks @ [x])) = Inl ENOENT"
    using Stat_plain [OF assms(1-3)] assms(4) by simp
  have p: "(if 1 < parentEnd (absPath (ks @ [x]))
            then MkdirAll fs (take (parentEnd (absPath (ks @ [x])) - 1) (absPath (ks @ [x]))) perm
            else Inr fs) = Inr fs"
  proof (cases "ks = []")
    case True
    then show ?thesis using parentEnd_absPath [OF assms(3), of "[]"] by simp
  next
    case False
    show ?thesis
      using parent_absPath [OF assms(3) False]
      by (simp add: MkdirAll_exists Stat_dirs [OF assms(1,2)])
  qed
  show ?thesis
    by (subst MkdirAll.simps) (simp only: s p Mkdir_new [OF assms] sum.case)
qed

lemma OpenFile_new:
  assumes "dirChain fs ks" "list_all plainName ks" "plainName x" "nodeAt fs (ks @ [x]) = None"
  shows "OpenFile fs (absPath (ks @ [x])) perm = Inr (ks @ [x], AList.update (ks @ [x]) (File []) fs)"
proof -
  have "resolve fs (absPath (ks @ [x])) True = Inr (ks @ [x])"
    using assms by (intro resolve_plain) auto
  then show ?thesis
    by (simp add: OpenFile_def assms(4))
qed

lemma Write_new:
  "k \<noteq> [] \<Longrightarrow> Write (AList.update k (File []) fs) k data = AList.update k (File data) fs"
  by (simp add: Write_def nodeAt_update)

section \<open>The inventory\<close>

lemma in_clearjunk: "((q, n) \<in> set (AList.clearjunk fs)) = (map_of fs q = Some n)"
  using graph_map_of [of fs] by (auto simp: Map.graph_def)

lemma in_dirEntries:
  "((x, n) \<in> set (dirEntries fs k)) = (map_of fs (k @ [x]) = Some n)"
proof
  assume "(x, n) \<in> set (dirEntries fs k)"
  then obtain q where q: "(q, n) \<in> set (AList.clearjunk fs)" "q \<noteq> []" "butlast q = k" "last q = x"
    by (auto simp: dirEntries_def)
  then have "q = k @ [x]"
    using append_butlast_last_id [of q] by simp
  with q(1) show "map_of fs (k @ [x]) = Some n"
    by (simp add: in_clearjunk)
next
  assume "map_of fs (k @ [x]) = Some n"
  then have "(k @ [x], n) \<in> set (AList.clearjunk fs)"
    by (simp add: in_clearjunk)
  then show "(x, n) \<in> set (dirEntries fs k)"
    by (force simp: dirEntries_def)
qed

lemma dirEntries_distinct: "distinct (map fst (dirEntries fs k))"
proof -
  define qs where "qs = filter (\<lambda>q. q \<noteq> [] \<and> butlast q = k) (map fst (AList.clearjunk fs))"
  have m: "map fst (dirEntries fs k) = map last qs"
    by (simp add: dirEntries_def qs_def filter_map comp_def case_prod_unfold)
  have d: "distinct qs"
    by (simp add: qs_def)
  have "inj_on last (set qs)"
  proof (rule inj_onI)
    fix a b
    assume "a \<in> set qs" "b \<in> set qs" "last a = last b"
    then have "a \<noteq> []" "b \<noteq> []" "butlast a = butlast b" "last a = last b"
      by (auto simp: qs_def)
    then show "a = b"
      by (metis append_butlast_last_id)
  qed
  with d show ?thesis
    by (simp add: m distinct_map)
qed

lemma sort_key_names_distinct:
  "distinct (map f (sort_key f xs)) = distinct (map f xs)"
  by (induction xs) (auto simp: distinct_insort_key set_insort_key)

lemma ReadDir_ascending:
  assumes "ReadDir fs d = Inr fis"
  shows "sorted_wrt (<) (map fst fis)"
proof -
  obtain k where f: "fis = sort_key fst (dirEntries fs k)"
    using assms by (auto simp: ReadDir_def split: sum.splits option.splits node.splits)
  show ?thesis
    by (simp add: f strict_sorted_iff sort_key_names_distinct dirEntries_distinct)
qed

lemma sorted_wrt_less_filter:
  "sorted_wrt (<) (map f xs) \<Longrightarrow> sorted_wrt (<) (map f (filter P xs))"
  by (induction xs) auto


lemma list_members:
  "(Version x \<in> set (fst (list e fs)))
     = (\<exists>k. resolve fs (InstallPath e) True = Inr k \<and> nodeAt fs k = Some Dir
            \<and> nodeAt fs (k @ [x]) = Some Dir)"
proof (cases "resolve fs (InstallPath e) True")
  case (Inl err)
  then show ?thesis by (simp add: list_def ReadDir_def)
next
  case (Inr k)
  show ?thesis
  proof (cases "nodeAt fs k = Some Dir")
    case False
    then show ?thesis
      by (auto simp: list_def ReadDir_def Inr split: option.splits node.splits)
  next
    case True
    have "(Version x \<in> set (fst (list e fs))) = ((x, Dir) \<in> set (dirEntries fs k))"
      by (force simp: list_def ReadDir_def Inr True)
    also have "\<dots> = (nodeAt fs (k @ [x]) = Some Dir)"
      by (simp add: in_dirEntries nodeAt_def)
    finally show ?thesis
      by (simp add: Inr True)
  qed
qed

text \<open>
  C4, as the code has it. The specification says that the name \<open>current\<close> is never listed,
  even when it is a real directory. \<^verbatim>\<open>list\<close> filters on \<^verbatim>\<open>fi.IsDir()\<close> only: a real
  directory named \<open>current\<close> is listed.
\<close>

theorem list_current_directory_counterexample:
  "list sdk_executor sdk_fs_current_dir
     = ([Version ''1.16.0'', Version ''1.17.1'', Version ''current''], None)"
  by code_simp

text \<open>
  C4, amended: a name is listed exactly when the install root resolves to a directory
  and the entry of that name in it is a real directory. So \<open>current\<close> is left out
  when it is a symbolic link (or a file, or absent), and only then.
\<close>

theorem list_real_directories:
  "(Version x \<in> set (fst (list e fs)))
     = (\<exists>k. resolve fs (InstallPath e) True = Inr k \<and> nodeAt fs k = Some Dir
            \<and> nodeAt fs (k @ [x]) = Some Dir)"
  by (rule list_members)

section \<open>The current link\<close>

text \<open>
  C6. On the operating system's file system, when \<^verbatim>\<open>root/<version>\<close> is not a
  directory (\<^verbatim>\<open>Stat\<close> fails or finds something else), \<^verbatim>\<open>Use\<close> returns
  \<^verbatim>\<open>ErrVersionNotInstalled\<close> and the file system is unchanged, a link \<open>current\<close>
  included.
\<close>

theorem Use_not_installed:
  "FsIsOsFs e \<Longrightarrow> Stat fs (filepath_Join (InstallPath e) (Version_String version)) \<noteq> Inr Dir
     \<Longrightarrow> Use e fs version = (Some ErrVersionNotInstalled, fs)"
  by (simp add: Use_def DirExists_def Let_def split: sum.splits)

theorem Use_not_installed_witness:
  "FsIsOsFs sdk_executor
   \<and> Stat sdk_fs_linked (filepath_Join (InstallPath sdk_executor) (Version_String (Version ''9.9.9'')))
       = Inl ENOENT
   \<and> Use sdk_executor sdk_fs_linked (Version ''9.9.9'') = (Some ErrVersionNotInstalled, sdk_fs_linked)
   \<and> ReadlinkIfPossible sdk_fs_linked ''/sdk/go/current'' = Inr ''/sdk/go/1.16.0''"
proof -
  have a: "FsIsOsFs sdk_executor"
    by (simp add: sdk_executor_def)
  have b: "Stat sdk_fs_linked (filepath_Join (InstallPath sdk_executor) (Version_String (Version ''9.9.9'')))
             = Inl ENOENT"
    by code_simp
  have c: "ReadlinkIfPossible sdk_fs_linked ''/sdk/go/current'' = Inr ''/sdk/go/1.16.0''"
    by code_simp
  show ?thesis
    using a b c Use_not_installed [of sdk_executor sdk_fs_linked "Version ''9.9.9''"] by simp
qed

text \<open>One successful \<^verbatim>\<open>Use\<close>: the old entry \<open>current\<close> goes, the new link comes.\<close>

lemma delete_absent: "map_of fs k = None \<Longrightarrow> AList.delete k fs = fs"
  by (rule delete_id) (simp add: map_of_eq_None_iff)

lemma Use_step:
  assumes os: "FsIsOsFs e" and root: "InstallPath e = absPath rs" "list_all plainName rs"
      and chain: "dirChain fs rs"
      and s: "plainName s" "s \<noteq> ''current''"
      and inst: "nodeAt fs (rs @ [s]) = Some Dir"
      and rem: "if nodeAt fs (rs @ [''current'']) = Some Dir
                then dirEntries fs (rs @ [''current'']) = [] else True"
  shows "Use e fs (Version s)
           = (None, AList.update (rs @ [''current'']) (Symlink (absPath (rs @ [s])))
                      (AList.delete (rs @ [''current'']) fs))"
proof -
  define ck where "ck = rs @ [''current'']"
  have cur: "plainName ''current''"
    by (simp add: plainName_def Separator_def)
  have vp: "filepath_Join (InstallPath e) (Version_String (Version s)) = absPath (rs @ [s])"
    by (simp add: root Join_name s)
  have cp: "filepath_Join (InstallPath e) ''current'' = absPath ck"
    by (simp add: root Join_name cur ck_def)
  have st: "Stat fs (absPath (rs @ [s])) = Inr Dir"
    using Stat_plain [OF chain root(2) s(1)] inst by simp
  have rv: "resolve fs (absPath ck) False = Inr ck"
    unfolding ck_def by (rule resolve_nofollow [OF chain root(2) cur])
  have ckne: "ck \<noteq> []"
    by (simp add: ck_def)
  have rem': "nodeAt fs ck = Some Dir \<Longrightarrow> dirEntries fs ck = []"
    using rem by (simp add: ck_def split: if_splits)
  have rm: "(case Remove fs (absPath ck) of Inl _ \<Rightarrow> fs | Inr fs' \<Rightarrow> fs') = AList.delete ck fs"
  proof (cases "nodeAt fs ck")
    case None
    then have "map_of fs ck = None"
      by (simp add: nodeAt_def ckne)
    then show ?thesis
      by (simp add: Remove_def rv None delete_absent ckne)
  next
    case (Some n)
    then show ?thesis
      using rem' by (cases n) (simp_all add: Remove_def rv ckne)
  qed
  have chain1: "dirChain (AList.delete ck fs) rs"
    using chain unfolding dirChain_def by (rule dirsFrom_delete_longer) (simp add: ck_def)
  have rv1: "resolve (AList.delete ck fs) (absPath ck) False = Inr ck"
    unfolding ck_def by (rule resolve_nofollow [OF chain1 [unfolded ck_def] root(2) cur])
  have free: "nodeAt (AList.delete ck fs) ck = None"
    by (simp add: nodeAt_delete ck_def)
  have sl: "SymlinkIfPossible (AList.delete ck fs) (absPath (rs @ [s])) (absPath ck)
              = Inr (AList.update ck (Symlink (absPath (rs @ [s]))) (AList.delete ck fs))"
    by (simp add: SymlinkIfPossible_def rv1 free)
  show ?thesis
    unfolding Use_def Let_def vp cp
    by (simp add: os DirExists_def st rm sl) (simp add: ck_def)
qed

lemma nodeAt_after_Use:
  "nodeAt (AList.update ck v (AList.delete ck fs)) q
     = (if q = [] then Some Dir else if q = ck then Some v else nodeAt fs q)"
  by (simp add: nodeAt_update nodeAt_delete)

lemma Use_twice:
  assumes os: "FsIsOsFs e" and root: "InstallPath e = absPath rs" "list_all plainName rs"
      and chain: "dirChain fs rs"
      and s: "plainName s1" "plainName s2" "s1 \<noteq> ''current''" "s2 \<noteq> ''current''"
      and inst: "nodeAt fs (rs @ [s1]) = Some Dir" "nodeAt fs (rs @ [s2]) = Some Dir"
      and rem: "if nodeAt fs (rs @ [''current'']) = Some Dir
                then dirEntries fs (rs @ [''current'']) = [] else True"
  shows "\<exists>fs1 fs2. Use e fs (Version s1) = (None, fs1) \<and> Use e fs1 (Version s2) = (None, fs2)
           \<and> ReadlinkIfPossible fs2 (absPath (rs @ [''current''])) = Inr (absPath (rs @ [s2]))
           \<and> resolve fs2 (absPath (rs @ [''current''])) True = Inr (rs @ [s2])
           \<and> current e fs2 = ParseVersion s2
           \<and> (\<forall>q. q \<noteq> rs @ [''current''] \<longrightarrow> nodeAt fs2 q = nodeAt fs q)"
proof -
  define ck where "ck = rs @ [''current'']"
  define fs1 where "fs1 = AList.update ck (Symlink (absPath (rs @ [s1]))) (AList.delete ck fs)"
  define fs2 where "fs2 = AList.update ck (Symlink (absPath (rs @ [s2]))) (AList.delete ck fs1)"
  have cur: "plainName ''current''"
    by (simp add: plainName_def Separator_def)
  have n1: "nodeAt fs1 q = (if q = [] then Some Dir else if q = ck then Some (Symlink (absPath (rs @ [s1])))
                            else nodeAt fs q)" for q
    by (simp add: fs1_def nodeAt_after_Use)
  have n2: "nodeAt fs2 q = (if q = [] then Some Dir else if q = ck then Some (Symlink (absPath (rs @ [s2])))
                            else nodeAt fs q)" for q
    by (simp add: fs2_def nodeAt_after_Use n1)
  have u1: "Use e fs (Version s1) = (None, fs1)"
    unfolding fs1_def ck_def by (rule Use_step [OF os root chain s(1,3) inst(1) rem])
  have longer: "length ([] @ rs) < length ck"
    by (simp add: ck_def)
  have chain1: "dirChain fs1 rs"
    unfolding fs1_def dirChain_def
    by (intro dirsFrom_update_longer dirsFrom_delete_longer chain [unfolded dirChain_def] longer)
  have chain2: "dirChain fs2 rs"
    unfolding fs2_def dirChain_def
    by (intro dirsFrom_update_longer dirsFrom_delete_longer chain1 [unfolded dirChain_def] longer)
  have inst1: "nodeAt fs1 (rs @ [s2]) = Some Dir"
    using inst(2) s(4) by (simp add: n1 ck_def)
  have rem1: "if nodeAt fs1 (rs @ [''current'']) = Some Dir
              then dirEntries fs1 (rs @ [''current'']) = [] else True"
    by (simp add: n1 ck_def)
  have u2: "Use e fs1 (Version s2) = (None, fs2)"
    unfolding fs2_def ck_def by (rule Use_step [OF os root chain1 s(2,4) inst1 rem1])
  have rl: "ReadlinkIfPossible fs2 (absPath ck) = Inr (absPath (rs @ [s2]))"
    unfolding ck_def
    by (simp add: ReadlinkIfPossible_def resolve_nofollow [OF chain2 root(2) cur] n2 [unfolded ck_def])
  have inst2: "nodeAt fs2 (rs @ [s2]) = Some Dir"
    using inst(2) s(4) by (simp add: n2 ck_def)
  have w: "walk 39 fs2 [] (rs @ [s2]) True = Inr ([] @ rs @ [s2])"
    by (rule walk_last_plain [OF chain2 [unfolded dirChain_def] root(2) s(2)]) (simp add: inst2)
  have "walk (Suc 39) fs2 [] (rs @ [''current'']) True
          = walk 39 fs2 (if hd (absPath (rs @ [s2])) = Separator then [] else [] @ rs)
              (elements (absPath (rs @ [s2]))) True"
    by (rule walk_last_link [OF chain2 [unfolded dirChain_def] root(2) cur])
       (simp_all add: n2 [unfolded ck_def] absPath_def)
  then have rs2: "resolve fs2 (absPath ck) True = Inr (rs @ [s2])"
    using w s(2) root(2)
    by (simp add: resolve_def maxSymlinks_def ck_def elements_absPath cur absPath_nonempty)
       (simp add: absPath_def)
  have cp: "filepath_Join (InstallPath e) ''current'' = absPath ck"
    by (simp add: root Join_name cur ck_def)
  have cu: "current e fs2 = ParseVersion s2"
    by (simp add: current_def Let_def cp os rl Base_absPath s(2))
  have fr: "\<forall>q. q \<noteq> rs @ [''current''] \<longrightarrow> nodeAt fs2 q = nodeAt fs q"
    using n2 by (auto simp: ck_def nodeAt_def)
  show ?thesis
    using u1 u2 rl rs2 cu fr unfolding ck_def by blast
qed

text \<open>
  C7, as the code has it. The specification says that after \<^verbatim>\<open>Use(v1)\<close> and \<^verbatim>\<open>Use(v2)\<close>,
  \<^verbatim>\<open>current()\<close> reports \<open>v2\<close>. \<^verbatim>\<open>current\<close> parses the name of the linked directory
  again and returns the parser's canonical form: with the installed versions
  \<open>v1.17.1\<close> and \<open>v1.16\<close> of the repository's tests, the link points to \<open>v1.16\<close> and
  \<^verbatim>\<open>current\<close> reports \<open>1.16.0\<close>.
\<close>

theorem Use_current_reports_v2_counterexample:
  "Use sdk_executor test_fs (Version ''v1.17.1'') = (None, test_fs_1_17_1)
   \<and> Use sdk_executor test_fs_1_17_1 (Version ''v1.16'') = (None, test_fs_1_16)
   \<and> ReadlinkIfPossible test_fs_1_16 ''/sdk/go/current'' = Inr ''/sdk/go/v1.16''
   \<and> current sdk_executor test_fs_1_16 = Inr (Version ''1.16.0'')
   \<and> Version ''1.16.0'' \<noteq> Version ''v1.16''"
proof -
  have a: "Use sdk_executor test_fs (Version ''v1.17.1'') = (None, test_fs_1_17_1)"
    by code_simp
  have b: "Use sdk_executor test_fs_1_17_1 (Version ''v1.16'') = (None, test_fs_1_16)"
    by code_simp
  have j: "filepath_Join (InstallPath sdk_executor) ''current'' = ''/sdk/go/current''"
    by code_simp
  have c: "ReadlinkIfPossible test_fs_1_16 ''/sdk/go/current'' = Inr ''/sdk/go/v1.16''"
    by code_simp
  have d: "path_Base ''/sdk/go/v1.16'' = ''v1.16''"
    by code_simp
  have p: "ParseVersion ''v1.16'' = Inr (Version ''1.16.0'')"
    by (simp add: ParseVersion_eval)
  have o: "FsIsOsFs sdk_executor"
    by (simp add: sdk_executor_def)
  have e: "current sdk_executor test_fs_1_16 = Inr (Version ''1.16.0'')"
    by (simp add: current_def Let_def j c d p o)
  show ?thesis
    using a b c e by simp
qed

text \<open>
  C7, amended. Let the install root be an absolute clean path whose directories are
  real, let \<open>s1\<close> and \<open>s2\<close> be names of installed versions (real directories under the
  root, plain names other than \<open>current\<close>), and let the entry \<open>current\<close> be absent, a
  link, a file or an empty directory. Then \<^verbatim>\<open>Use(s1)\<close> and \<^verbatim>\<open>Use(s2)\<close> succeed;
  afterwards \<open>current\<close> is a link to \<^verbatim>\<open>root/s2\<close> and resolves to that directory,
  nothing else has changed, and \<^verbatim>\<open>current()\<close> reports what \<^verbatim>\<open>ParseVersion\<close> makes of
  \<open>s2\<close>: the version \<open>s2\<close> itself exactly when \<open>s2\<close> is in canonical form.
\<close>

theorem Use_switches_current:
  assumes "FsIsOsFs e" and "InstallPath e = absPath rs" and "list_all plainName rs"
      and "dirChain fs rs"
      and "plainName s1" and "plainName s2" and "s1 \<noteq> ''current''" and "s2 \<noteq> ''current''"
      and "nodeAt fs (rs @ [s1]) = Some Dir" and "nodeAt fs (rs @ [s2]) = Some Dir"
      and "if nodeAt fs (rs @ [''current'']) = Some Dir
           then dirEntries fs (rs @ [''current'']) = [] else True"
  shows "\<exists>fs1 fs2. Use e fs (Version s1) = (None, fs1) \<and> Use e fs1 (Version s2) = (None, fs2)
           \<and> ReadlinkIfPossible fs2 (absPath (rs @ [''current''])) = Inr (absPath (rs @ [s2]))
           \<and> resolve fs2 (absPath (rs @ [''current''])) True = Inr (rs @ [s2])
           \<and> current e fs2 = ParseVersion s2
           \<and> (\<forall>q. q \<noteq> rs @ [''current''] \<longrightarrow> nodeAt fs2 q = nodeAt fs q)"
  using assms by (rule Use_twice)

theorem Use_switches_current_witness:
  "InstallPath sdk_executor = absPath [''sdk'', ''go'']
   \<and> dirChain sdk_fs [''sdk'', ''go'']
   \<and> nodeAt sdk_fs [''sdk'', ''go'', ''1.17.1''] = Some Dir
   \<and> nodeAt sdk_fs [''sdk'', ''go'', ''1.16.0''] = Some Dir
   \<and> nodeAt sdk_fs [''sdk'', ''go'', ''current''] = None
   \<and> (\<exists>fs1 fs2. Use sdk_executor sdk_fs (Version ''1.17.1'') = (None, fs1)
         \<and> Use sdk_executor fs1 (Version ''1.16.0'') = (None, fs2)
         \<and> ReadlinkIfPossible fs2 ''/sdk/go/current'' = Inr ''/sdk/go/1.16.0''
         \<and> resolve fs2 ''/sdk/go/current'' True = Inr [''sdk'', ''go'', ''1.16.0'']
         \<and> current sdk_executor fs2 = Inr (Version ''1.16.0''))"
proof -
  have h1: "FsIsOsFs sdk_executor"
    by (simp add: sdk_executor_def)
  have h2: "InstallPath sdk_executor = absPath [''sdk'', ''go'']"
    by (simp add: sdk_executor_def absPath_def Separator_def)
  have h3: "list_all plainName [''sdk'', ''go'']"
    by (simp add: plainName_def Separator_def)
  have h4: "dirChain sdk_fs [''sdk'', ''go'']"
    by (simp add: dirChain_def nodeAt_def sdk_fs_def)
  have h5: "plainName ''1.17.1''" "plainName ''1.16.0''"
    by (simp_all add: plainName_def Separator_def)
  have h6: "''1.17.1'' \<noteq> ''current''" "''1.16.0'' \<noteq> ''current''"
    by simp_all
  have h7: "nodeAt sdk_fs ([''sdk'', ''go''] @ [''1.17.1'']) = Some Dir"
    "nodeAt sdk_fs ([''sdk'', ''go''] @ [''1.16.0'']) = Some Dir"
    by (simp_all add: nodeAt_def sdk_fs_def)
  have h8: "nodeAt sdk_fs ([''sdk'', ''go''] @ [''current'']) = None"
    by (simp add: nodeAt_def sdk_fs_def)
  then have h9: "if nodeAt sdk_fs ([''sdk'', ''go''] @ [''current'']) = Some Dir
                 then dirEntries sdk_fs ([''sdk'', ''go''] @ [''current'']) = [] else True"
    by simp
  have p: "ParseVersion ''1.16.0'' = Inr (Version ''1.16.0'')"
    by (simp add: ParseVersion_eval)
  have a: "absPath ([''sdk'', ''go''] @ [''current'']) = ''/sdk/go/current''"
    "absPath ([''sdk'', ''go''] @ [''1.16.0'']) = ''/sdk/go/1.16.0''"
    by (simp_all add: absPath_def Separator_def)
  from Use_switches_current [OF h1 h2 h3 h4 h5 h6 h7 h9]
  obtain fs1 fs2 where u: "Use sdk_executor sdk_fs (Version ''1.17.1'') = (None, fs1)"
      "Use sdk_executor fs1 (Version ''1.16.0'') = (None, fs2)"
      "ReadlinkIfPossible fs2 (absPath ([''sdk'', ''go''] @ [''current'']))
         = Inr (absPath ([''sdk'', ''go''] @ [''1.16.0'']))"
      "resolve fs2 (absPath ([''sdk'', ''go''] @ [''current''])) True = Inr ([''sdk'', ''go''] @ [''1.16.0''])"
      "current sdk_executor fs2 = ParseVersion ''1.16.0''"
    by blast
  have "\<exists>fs1 fs2. Use sdk_executor sdk_fs (Version ''1.17.1'') = (None, fs1)
         \<and> Use sdk_executor fs1 (Version ''1.16.0'') = (None, fs2)
         \<and> ReadlinkIfPossible fs2 ''/sdk/go/current'' = Inr ''/sdk/go/1.16.0''
         \<and> resolve fs2 ''/sdk/go/current'' True = Inr [''sdk'', ''go'', ''1.16.0'']
         \<and> current sdk_executor fs2 = Inr (Version ''1.16.0'')"
    using u unfolding a p by (intro exI [of _ fs1] exI [of _ fs2]) simp
  then show ?thesis
    using h2 h4 h7 h8 by simp
qed

section \<open>Extraction\<close>

lemma nodeAt_root: "nodeAt fs [] = Some Dir"
  by (simp add: nodeAt_def)

lemma archiveTree_Cons:
  "archiveTree (e # es) r = (if r = entryPath e then Some (entryNode e) else archiveTree es r)"
  by (simp add: archiveTree_def)

lemma parentsFirst_unseen:
  "parentsFirst dirs seen es \<Longrightarrow> r \<in> set seen \<Longrightarrow> r \<noteq> [] \<Longrightarrow> archiveTree es r = None"
proof (induction es arbitrary: dirs seen)
  case Nil
  show ?case by (simp add: archiveTree_def)
next
  case (Cons e es)
  show ?case
  proof (cases "entryPath e = []")
    case True
    with Cons.prems have "parentsFirst dirs seen es"
      by (simp add: Let_def)
    from Cons.IH [OF this Cons.prems(2,3)] show ?thesis
      using True Cons.prems(3) by (simp add: archiveTree_Cons)
  next
    case False
    with Cons.prems have n: "entryPath e \<notin> set seen"
      and p: "parentsFirst (if FileInfo_IsDir (hdr e) then entryPath e # dirs else dirs)
                (entryPath e # seen) es"
      by (simp_all add: Let_def)
    have "r \<in> set (entryPath e # seen)"
      using Cons.prems(2) by simp
    from Cons.IH [OF p this Cons.prems(3)] show ?thesis
      using n Cons.prems(2) by (auto simp: archiveTree_Cons)
  qed
qed

lemma entryPath_plain:
  assumes "list_all (\<lambda>x. x \<noteq> ''.'' \<and> x \<noteq> ''..'') (tl (strings_Split (Name (hdr e)) Separator))"
  shows "list_all plainName (entryPath e)"
proof -
  have "plainName x" if "x \<in> set (entryPath e)" for x
  proof -
    from that have x: "x \<in> set (tl (strings_Split (Name (hdr e)) Separator))" "x \<noteq> []"
      by (auto simp: entryPath_def)
    then have "x \<in> set (strings_Split (Name (hdr e)) Separator)"
      by (meson list.set_sel(2) Split_nonempty)
    then have "Separator \<notin> set x"
      by (rule Split_elems)
    moreover have "x \<noteq> ''.''" "x \<noteq> ''..''"
      using assms x(1) by (auto simp: list_all_iff)
    ultimately show ?thesis
      using x(2) by (simp add: plainName_def)
  qed
  then show ?thesis
    by (simp add: list_all_iff)
qed

text \<open>One entry whose place is free and whose parent directory is real.\<close>

lemma untar_entry:
  assumes ts: "list_all plainName ts"
      and ok: "list_all (\<lambda>x. x \<noteq> ''.'' \<and> x \<noteq> ''..'') (tl (strings_Split (Name (hdr e)) Separator))"
      and r: "entryPath e \<noteq> []"
      and parent: "dirChain fs (ts @ butlast (entryPath e))"
      and free: "nodeAt fs (ts @ entryPath e) = None"
      and noerr: "bodyErr e = None"
  shows "untarLoop (Some unarchiveRenamer) (absPath ts) fs (e # es) final
           = untarLoop (Some unarchiveRenamer) (absPath ts)
               (AList.update (ts @ entryPath e) (entryNode e) fs) es final"
proof -
  define ks where "ks = ts @ butlast (entryPath e)"
  define x where "x = last (entryPath e)"
  have k: "ts @ entryPath e = ks @ [x]"
    using r by (simp add: ks_def x_def)
  have pl: "list_all plainName (entryPath e)"
    using ok by (rule entryPath_plain)
  have pks: "list_all plainName ks"
    using ts pl by (auto simp: ks_def list_all_iff dest: in_set_butlastD)
  have px: "plainName x"
    using pl r by (auto simp: x_def list_all_iff)
  have p: "filepath_Join (absPath ts) (unarchiveRenamer (Name (hdr e))) = absPath (ks @ [x])"
    using Join_entry [OF ts ok] by (simp add: k)
  have chain: "dirChain fs ks"
    using parent by (simp add: ks_def)
  have free': "nodeAt fs (ks @ [x]) = None"
    using free by (simp add: k)
  show ?thesis
  proof (cases "FileInfo_IsDir (hdr e)")
    case True
    show ?thesis
      unfolding untarLoop.simps Let_def option.case p k
      by (simp add: True MkdirAll_new [OF chain pks px free'] entryNode_def)
  next
    case False
    show ?thesis
      unfolding untarLoop.simps Let_def option.case p k
      by (simp add: False OpenFile_new [OF chain pks px free'] Write_new noerr entryNode_def)
  qed
qed

lemma untar_wrapper_entry:
  assumes ts: "list_all plainName ts"
      and ok: "list_all (\<lambda>x. x \<noteq> ''.'' \<and> x \<noteq> ''..'') (tl (strings_Split (Name (hdr e)) Separator))"
      and r: "entryPath e = []"
      and isdir: "FileInfo_IsDir (hdr e)"
      and chain: "dirChain fs ts"
  shows "untarLoop (Some unarchiveRenamer) (absPath ts) fs (e # es) final
           = untarLoop (Some unarchiveRenamer) (absPath ts) fs es final"
proof -
  have p: "filepath_Join (absPath ts) (unarchiveRenamer (Name (hdr e))) = absPath ts"
    using Join_entry [OF ts ok] by (simp add: r)
  show ?thesis
    unfolding untarLoop.simps Let_def option.case p
    by (simp add: isdir MkdirAll_exists Stat_dirs [OF chain ts])
qed

lemma untarLoop_unwraps:
  assumes ts: "list_all plainName ts"
      and dirs: "list_all (\<lambda>d. dirChain fs (ts @ d)) dirs"
      and top: "[] \<in> set dirs"
      and seen: "\<And>r. r \<noteq> [] \<Longrightarrow> nodeAt fs (ts @ r) \<noteq> None \<Longrightarrow> r \<in> set seen"
      and pf: "parentsFirst dirs seen es"
  shows "\<exists>fs'. untarLoop (Some unarchiveRenamer) (absPath ts) fs es None = (None, fs')
           \<and> (\<forall>r. r \<noteq> [] \<longrightarrow> nodeAt fs' (ts @ r)
                  = (case archiveTree es r of Some n \<Rightarrow> Some n | None \<Rightarrow> nodeAt fs (ts @ r)))
           \<and> (\<forall>q. take (length ts) q \<noteq> ts \<longrightarrow> nodeAt fs' q = nodeAt fs q)
           \<and> nodeAt fs' ts = nodeAt fs ts"
  using dirs top seen pf
proof (induction es arbitrary: fs dirs seen)
  case Nil
  show ?case by (simp add: archiveTree_def)
next
  case (Cons e es)
  define r where "r = entryPath e"
  have ok: "list_all (\<lambda>x. x \<noteq> ''.'' \<and> x \<noteq> ''..'') (tl (strings_Split (Name (hdr e)) Separator))"
    using Cons.prems(4) by (simp add: Let_def)
  show ?case
  proof (cases "r = []")
    case True
    have isdir: "FileInfo_IsDir (hdr e)" and pf': "parentsFirst dirs seen es"
      using Cons.prems(4) True by (simp_all add: Let_def r_def)
    have chain: "dirChain fs ts"
      using Cons.prems(1,2) by (auto simp: list_all_iff)
    have step: "untarLoop (Some unarchiveRenamer) (absPath ts) fs (e # es) None
                  = untarLoop (Some unarchiveRenamer) (absPath ts) fs es None"
      using True by (intro untar_wrapper_entry [OF ts ok _ isdir chain]) (simp add: r_def)
    from Cons.IH [OF Cons.prems(1,2) Cons.prems(3) pf']
    obtain fs' where f: "untarLoop (Some unarchiveRenamer) (absPath ts) fs es None = (None, fs')"
        "\<forall>r. r \<noteq> [] \<longrightarrow> nodeAt fs' (ts @ r)
                  = (case archiveTree es r of Some n \<Rightarrow> Some n | None \<Rightarrow> nodeAt fs (ts @ r))"
        "\<forall>q. take (length ts) q \<noteq> ts \<longrightarrow> nodeAt fs' q = nodeAt fs q"
        "nodeAt fs' ts = nodeAt fs ts"
      by blast
    have "\<forall>r'. r' \<noteq> [] \<longrightarrow> nodeAt fs' (ts @ r')
            = (case archiveTree (e # es) r' of Some n \<Rightarrow> Some n | None \<Rightarrow> nodeAt fs (ts @ r'))"
      using f(2) True by (simp add: archiveTree_Cons r_def)
    with f step show ?thesis
      by simp
  next
    case False
    have pb: "butlast r \<in> set dirs" and un: "r \<notin> set seen" and ne: "bodyErr e = None"
      and pf': "parentsFirst (if FileInfo_IsDir (hdr e) then r # dirs else dirs) (r # seen) es"
      using Cons.prems(4) False by (auto simp: Let_def r_def split: if_splits)
    define k where "k = ts @ r"
    define fs1 where "fs1 = AList.update k (entryNode e) fs"
    have parent: "dirChain fs (ts @ butlast r)"
      using Cons.prems(1) pb by (auto simp: list_all_iff)
    have free: "nodeAt fs k = None"
    proof (rule ccontr)
      assume "nodeAt fs k \<noteq> None"
      then have "r \<in> set seen"
        using Cons.prems(3) [of r] False by (simp add: k_def)
      with un show False by simp
    qed
    have step: "untarLoop (Some unarchiveRenamer) (absPath ts) fs (e # es) None
                  = untarLoop (Some unarchiveRenamer) (absPath ts) fs1 es None"
      unfolding fs1_def k_def r_def
      by (rule untar_entry [OF ts ok False [unfolded r_def] parent [unfolded r_def]
            free [unfolded k_def r_def] ne])
    have kne: "k \<noteq> []" "k \<noteq> ts"
      using False by (simp_all add: k_def)
    have n1: "nodeAt fs1 q = (if q = k then Some (entryNode e) else nodeAt fs q)" for q
      using kne by (auto simp: fs1_def nodeAt_update nodeAt_root)
    have keep: "dirChain fs1 (ts @ d)" if "dirChain fs (ts @ d)" for d
      using that free unfolding fs1_def dirChain_def by (intro dirsFrom_update_other) simp_all
    have dirs1: "list_all (\<lambda>d. dirChain fs1 (ts @ d))
                   (if FileInfo_IsDir (hdr e) then r # dirs else dirs)"
    proof -
      have a: "list_all (\<lambda>d. dirChain fs1 (ts @ d)) dirs"
        using Cons.prems(1) keep by (auto simp: list_all_iff)
      have b: "dirChain fs1 (ts @ r)" if "FileInfo_IsDir (hdr e)"
      proof -
        have "ts @ r = (ts @ butlast r) @ [last r]"
          using False by simp
        moreover have "dirsFrom fs1 [] (ts @ butlast r)"
          using keep [OF parent] by (simp add: dirChain_def)
        moreover have "nodeAt fs1 (ts @ butlast r) = Some Dir"
          using keep [OF parent] dirsFrom_last [of fs1 "[]" "ts @ butlast r"]
          by (simp add: dirChain_def)
        moreover have "nodeAt fs1 (ts @ r) = Some Dir"
          using that by (simp add: n1 k_def entryNode_def)
        ultimately show ?thesis
          unfolding dirChain_def
          by (simp only: dirsFrom_append dirsFrom.simps append_Nil)
      qed
      show ?thesis
        using a b by simp
    qed
    have top1: "[] \<in> set (if FileInfo_IsDir (hdr e) then r # dirs else dirs)"
      using Cons.prems(2) by simp
    have seen1: "r' \<in> set (r # seen)" if "r' \<noteq> []" "nodeAt fs1 (ts @ r') \<noteq> None" for r'
      using that Cons.prems(3) [of r'] by (auto simp: n1 k_def split: if_splits)
    from Cons.IH [OF dirs1 top1 seen1 pf']
    obtain fs' where f: "untarLoop (Some unarchiveRenamer) (absPath ts) fs1 es None = (None, fs')"
        "\<forall>r. r \<noteq> [] \<longrightarrow> nodeAt fs' (ts @ r)
                  = (case archiveTree es r of Some n \<Rightarrow> Some n | None \<Rightarrow> nodeAt fs1 (ts @ r))"
        "\<forall>q. take (length ts) q \<noteq> ts \<longrightarrow> nodeAt fs' q = nodeAt fs1 q"
        "nodeAt fs' ts = nodeAt fs1 ts"
      by blast
    have none: "archiveTree es r = None"
      by (rule parentsFirst_unseen [OF pf' _ False]) simp
    have a: "\<forall>r'. r' \<noteq> [] \<longrightarrow> nodeAt fs' (ts @ r')
            = (case archiveTree (e # es) r' of Some n \<Rightarrow> Some n | None \<Rightarrow> nodeAt fs (ts @ r'))"
    proof (intro allI impI)
      fix r' :: fpath
      assume "r' \<noteq> []"
      with f(2) have g: "nodeAt fs' (ts @ r')
            = (case archiveTree es r' of Some n \<Rightarrow> Some n | None \<Rightarrow> nodeAt fs1 (ts @ r'))"
        by simp
      show "nodeAt fs' (ts @ r')
            = (case archiveTree (e # es) r' of Some n \<Rightarrow> Some n | None \<Rightarrow> nodeAt fs (ts @ r'))"
      proof (cases "r' = r")
        case True
        then show ?thesis
          using g none by (simp add: archiveTree_Cons r_def [symmetric] n1 k_def)
      next
        case False
        then show ?thesis
          using g by (simp add: archiveTree_Cons r_def [symmetric] n1 k_def split: option.splits)
      qed
    qed
    have b: "\<forall>q. take (length ts) q \<noteq> ts \<longrightarrow> nodeAt fs' q = nodeAt fs q"
      using f(3) by (auto simp: n1 k_def)
    have c: "nodeAt fs' ts = nodeAt fs ts"
      using f(4) kne by (simp add: n1)
    from f(1) step a b c show ?thesis
      by simp
  qed
qed

lemma emptyBelow_free:
  assumes "emptyBelow fs ts" and "r \<noteq> []"
  shows "nodeAt fs (ts @ r) = None"
proof (rule ccontr)
  assume "nodeAt fs (ts @ r) \<noteq> None"
  then obtain n where "map_of fs (ts @ r) = Some n"
    using assms(2) by (auto simp: nodeAt_def)
  then have "(ts @ r, n) \<in> set fs"
    by (rule map_of_SomeD)
  with assms(1) have "ts @ r = ts"
    by (auto simp: emptyBelow_def list_all_iff)
  with assms(2) show False by simp
qed




section \<open>The archive name of a parsed version\<close>

text \<open>
  For a version that \<^verbatim>\<open>ParseVersion\<close> returned, \<^verbatim>\<open>String()\<close> and \<^verbatim>\<open>Number()\<close> agree,
  so the archive name that \<^verbatim>\<open>dlArchive\<close> builds from \<^verbatim>\<open>String()\<close> is the one
  \<^verbatim>\<open>Number()\<close> gives: the leading \<open>v\<close> of an input does not reach the archive name
  when the version went through the parser, as it does on the command line.
\<close>

theorem parsed_version_archive_name:
  "ParseVersion s = Inr v \<Longrightarrow>
     formatGoArchiveArtifactName ri (Version_String v) = formatGoArchiveArtifactName ri (Version_Number v)"
  by (simp add: ParseVersion_Number)

theorem parsed_version_archive_name_witness:
  "ParseVersion ''v1.17.1'' = Inr (Version ''1.17.1'')
   \<and> formatGoArchiveArtifactName linux_amd64 (Version_String (Version ''1.17.1''))
       = ''go1.17.1.linux-amd64.tar.gz''"
proof -
  have h: "ParseVersion ''v1.17.1'' = Inr (Version ''1.17.1'')"
    by (simp add: ParseVersion_eval)
  have n: "formatGoArchiveArtifactName linux_amd64 (Version_Number (Version ''1.17.1''))
             = ''go1.17.1.linux-amd64.tar.gz''"
    by code_simp
  show ?thesis
    using h n parsed_version_archive_name [OF h, of linux_amd64] by simp
qed

end
